theory Spec2Isabelle
  imports Main "HOL-Library.Product_Lexorder" "HOL-Library.Monad_Syntax"
begin

section \<open>Border stitching of polygon meshes (CGAL, stitch\_borders.h)\<close>

text \<open>
  A shallow embedding of \<^verbatim>\<open>CGAL/Polygon_mesh_processing/stitch_borders.h\<close>.
  The mesh is an arena of halfedge records: descriptors are indices, every accessor of the
  halfedge-graph interface is a field of the mesh, every mutator returns the updated mesh.
  Loops whose termination depends on the shape of the mesh (walking a boundary cycle or the
  fan of a vertex) take a bound on the number of iterations and return \<open>None\<close> when the
  bound is exhausted.
\<close>

subsection \<open>The mesh and its primitives\<close>

type_synonym vertex = nat
type_synonym halfedge = nat
type_synonym face = nat

text \<open>
  Modelled from the spec: the Mesh Adjacency Provider (the \<^verbatim>\<open>PolygonMesh\<close> template
  argument) is not part of the header. It exposes source/target, opposite, next/prev and face
  accessors, the mutators \<^verbatim>\<open>set_target\<close>, \<^verbatim>\<open>set_next\<close>, \<^verbatim>\<open>set_face\<close>,
  \<^verbatim>\<open>set_halfedge\<close>, the border tests, \<^verbatim>\<open>remove_edge\<close> and \<^verbatim>\<open>remove_vertex\<close>,
  and iteration over halfedges. A border halfedge has the null face, here \<open>None\<close>.
  The vertex point map is carried in the same record.
\<close>

record 'p mesh =
  halfedges :: "halfedge list"
  vertices :: "vertex list"
  faces :: "face list"
  target_map :: "halfedge \<Rightarrow> vertex"
  opposite_map :: "halfedge \<Rightarrow> halfedge"
  next_map :: "halfedge \<Rightarrow> halfedge"
  prev_map :: "halfedge \<Rightarrow> halfedge"
  face_map :: "halfedge \<Rightarrow> face option"
  vertex_halfedge :: "vertex \<Rightarrow> halfedge"
  face_halfedge :: "face \<Rightarrow> halfedge"
  vpm :: "vertex \<Rightarrow> 'p"

definition target :: "'p mesh \<Rightarrow> halfedge \<Rightarrow> vertex" where
  "target pm h = target_map pm h"

definition opposite :: "'p mesh \<Rightarrow> halfedge \<Rightarrow> halfedge" where
  "opposite pm h = opposite_map pm h"

definition source :: "'p mesh \<Rightarrow> halfedge \<Rightarrow> vertex" where
  "source pm h = target pm (opposite pm h)"

definition next_he :: "'p mesh \<Rightarrow> halfedge \<Rightarrow> halfedge" where
  "next_he pm h = next_map pm h"

definition prev_he :: "'p mesh \<Rightarrow> halfedge \<Rightarrow> halfedge" where
  "prev_he pm h = prev_map pm h"

definition face :: "'p mesh \<Rightarrow> halfedge \<Rightarrow> face option" where
  "face pm h = face_map pm h"

definition is_border :: "'p mesh \<Rightarrow> halfedge \<Rightarrow> bool" where
  "is_border pm h = (face pm h = None)"

definition is_border_edge :: "'p mesh \<Rightarrow> halfedge \<Rightarrow> bool" where
  "is_border_edge pm h = (is_border pm h \<or> is_border pm (opposite pm h))"

definition point :: "'p mesh \<Rightarrow> vertex \<Rightarrow> 'p" where
  "point pm v = vpm pm v"

definition set_target :: "halfedge \<Rightarrow> vertex \<Rightarrow> 'p mesh \<Rightarrow> 'p mesh" where
  "set_target h v pm = pm\<lparr>target_map := (target_map pm)(h := v)\<rparr>"

text \<open>\<^verbatim>\<open>set_next(h1, h2)\<close> makes \<open>h2\<close> the successor of \<open>h1\<close> and \<open>h1\<close> the predecessor of \<open>h2\<close>.\<close>

definition set_next :: "halfedge \<Rightarrow> halfedge \<Rightarrow> 'p mesh \<Rightarrow> 'p mesh" where
  "set_next h1 h2 pm = pm\<lparr>next_map := (next_map pm)(h1 := h2), prev_map := (prev_map pm)(h2 := h1)\<rparr>"

definition set_face :: "halfedge \<Rightarrow> face option \<Rightarrow> 'p mesh \<Rightarrow> 'p mesh" where
  "set_face h f pm = pm\<lparr>face_map := (face_map pm)(h := f)\<rparr>"

definition set_vertex_halfedge :: "vertex \<Rightarrow> halfedge \<Rightarrow> 'p mesh \<Rightarrow> 'p mesh" where
  "set_vertex_halfedge v h pm = pm\<lparr>vertex_halfedge := (vertex_halfedge pm)(v := h)\<rparr>"

text \<open>\<^verbatim>\<open>set_halfedge(f, h)\<close> on a face; on the null face nothing is stored.\<close>

definition set_face_halfedge :: "face option \<Rightarrow> halfedge \<Rightarrow> 'p mesh \<Rightarrow> 'p mesh" where
  "set_face_halfedge f h pm =
     (case f of None \<Rightarrow> pm | Some f' \<Rightarrow> pm\<lparr>face_halfedge := (face_halfedge pm)(f' := h)\<rparr>)"

text \<open>\<^verbatim>\<open>remove_edge(edge(h))\<close> deletes the edge record: \<open>h\<close> and its opposite.\<close>

definition remove_edge :: "halfedge \<Rightarrow> 'p mesh \<Rightarrow> 'p mesh" where
  "remove_edge h pm =
     pm\<lparr>halfedges := filter (\<lambda>x. x \<noteq> h \<and> x \<noteq> opposite pm h) (halfedges pm)\<rparr>"

definition remove_vertex :: "vertex \<Rightarrow> 'p mesh \<Rightarrow> 'p mesh" where
  "remove_vertex v pm = pm\<lparr>vertices := filter (\<lambda>x. x \<noteq> v) (vertices pm)\<rparr>"

subsection \<open>Border Pair Collector\<close>

text \<open>
  \<^verbatim>\<open>Less_for_halfedge\<close> compares the sorted pairs of endpoint points, so two halfedges are
  equivalent keys of the \<^verbatim>\<open>std::map\<close> exactly when their sorted pairs are equal. The map
  is modelled by a partial function on that sorted pair; the stored halfedge is the key
  that was inserted first, the \<^verbatim>\<open>std::pair<int, std::size_t>\<close> is the multiplicity and
  the index of the pair in \<^verbatim>\<open>halfedge_pairs\<close>. The multiplicity is an \<^verbatim>\<open>int\<close> in the
  source and counts border halfedges with one key; it is a natural number here.
\<close>

definition hkey :: "('p::linorder) mesh \<Rightarrow> halfedge \<Rightarrow> 'p \<times> 'p" where
  "hkey pm h =
     (let s = point pm (target pm (opposite pm h)); t = point pm (target pm h)
      in if s < t then (s, t) else (t, s))"

definition Less_for_halfedge :: "('p::linorder) mesh \<Rightarrow> halfedge \<Rightarrow> halfedge \<Rightarrow> bool" where
  "Less_for_halfedge pm h1 h2 = (hkey pm h1 < hkey pm h2)"

record 'p collector =
  border_halfedge_map :: "'p \<times> 'p \<rightharpoonup> halfedge \<times> nat \<times> nat"
  halfedge_pairs :: "(halfedge \<times> halfedge) list"
  manifold_halfedge_pairs :: "bool list"

definition empty_collector :: "'p collector" where
  "empty_collector = \<lparr>border_halfedge_map = Map.empty, halfedge_pairs = [],
     manifold_halfedge_pairs = []\<rparr>"

definition fill_pairs :: "('p::linorder) mesh \<Rightarrow> halfedge \<Rightarrow> 'p collector \<Rightarrow> 'p collector" where
  "fill_pairs pm he c =
     (case border_halfedge_map c (hkey pm he) of
        None \<Rightarrow> c\<lparr>border_halfedge_map := (border_halfedge_map c)(hkey pm he \<mapsto> (he, 1, 0))\<rparr>
      | Some (h0, mult, idx) \<Rightarrow>
          if mult + 1 = 2 then
            c\<lparr>border_halfedge_map :=
                 (border_halfedge_map c)(hkey pm he \<mapsto> (h0, 2, length (halfedge_pairs c))),
              halfedge_pairs := halfedge_pairs c @ [(h0, he)],
              manifold_halfedge_pairs := manifold_halfedge_pairs c @
                 [point pm (source pm he) = point pm (target pm h0) \<and>
                  point pm (target pm he) = point pm (source pm h0)]\<rparr>
          else if mult + 1 > 2 then
            c\<lparr>border_halfedge_map := (border_halfedge_map c)(hkey pm he \<mapsto> (h0, mult + 1, idx)),
              manifold_halfedge_pairs := (manifold_halfedge_pairs c)[idx := False]\<rparr>
          else
            c\<lparr>border_halfedge_map := (border_halfedge_map c)(hkey pm he \<mapsto> (h0, mult + 1, idx))\<rparr>)"

text \<open>
  \<^verbatim>\<open>collect_duplicated_stitchable_boundary_edges\<close> with \<^verbatim>\<open>per_cc == false\<close>: every border
  halfedge goes through \<^verbatim>\<open>fill_pairs\<close>, then the pairs flagged manifold are output in order.
\<close>

definition border_halfedges :: "'p mesh \<Rightarrow> halfedge list" where
  "border_halfedges pm = filter (is_border pm) (halfedges pm)"

definition manifold_output :: "'p collector \<Rightarrow> (halfedge \<times> halfedge) list" where
  "manifold_output c =
     map fst (filter snd (zip (halfedge_pairs c) (manifold_halfedge_pairs c)))"

definition collect_duplicated_stitchable_boundary_edges ::
  "('p::linorder) mesh \<Rightarrow> (halfedge \<times> halfedge) list" where
  "collect_duplicated_stitchable_boundary_edges pm =
     manifold_output (fold (fill_pairs pm) (border_halfedges pm) empty_collector)"

text \<open>
  With \<^verbatim>\<open>per_cc == true\<close> the border halfedges are first distributed over the connected
  components (the component of the face of the opposite halfedge), then each component is
  bucketed with a fresh map. The labelling of the faces comes from the Connected-Components
  collaborator and is a parameter here: \<open>cc\<close> labels the faces, \<open>num_component\<close> is the
  number of components. Indexing \<^verbatim>\<open>border_edges_per_cc\<close> out of range, or asking for
  the component of the null face, is undefined in the source; the model returns \<open>None\<close>.
\<close>

definition component_of :: "'p mesh \<Rightarrow> (face \<Rightarrow> nat) \<Rightarrow> nat \<Rightarrow> halfedge \<Rightarrow> nat option" where
  "component_of pm cc num_component he =
     (case face pm (opposite pm he) of
        None \<Rightarrow> None
      | Some f \<Rightarrow> if cc f < num_component then Some (cc f) else None)"

definition collect_per_cc ::
  "('p::linorder) mesh \<Rightarrow> (face \<Rightarrow> nat) \<Rightarrow> nat \<Rightarrow> (halfedge \<times> halfedge) list option" where
  "collect_per_cc pm cc num_component =
     (if \<forall>he \<in> set (border_halfedges pm). component_of pm cc num_component he \<noteq> None then
        Some (concat (map (\<lambda>i. manifold_output (fold (fill_pairs pm)
                (filter (\<lambda>he. component_of pm cc num_component he = Some i) (border_halfedges pm))
                empty_collector)) [0..<num_component]))
      else None)"

subsection \<open>Union-find over vertices\<close>

text \<open>
  Modelled from the spec: \<^verbatim>\<open>CGAL::Union_find\<close> is not part of the header. It is a
  disjoint-set structure with merge and representative lookup; the choice of the
  representative is arbitrary but stable within one pass. The model keeps the handle map
  (the vertices that have a handle, in the order they were inserted) and the representative
  of every vertex, and links the smaller set under the larger one, the first under the
  second when the sizes are equal.
\<close>

record uf =
  uf_handles :: "vertex list"
  uf_rep :: "vertex \<Rightarrow> vertex"

definition empty_uf :: uf where
  "empty_uf = \<lparr>uf_handles = [], uf_rep = (\<lambda>v. v)\<rparr>"

definition uf_get_handle :: "vertex \<Rightarrow> uf \<Rightarrow> uf" where
  "uf_get_handle v u =
     (if v \<in> set (uf_handles u) then u
      else u\<lparr>uf_handles := uf_handles u @ [v], uf_rep := (uf_rep u)(v := v)\<rparr>)"

definition uf_find :: "uf \<Rightarrow> vertex \<Rightarrow> vertex" where
  "uf_find u v = uf_rep u v"

definition uf_size :: "uf \<Rightarrow> vertex \<Rightarrow> nat" where
  "uf_size u r = length (filter (\<lambda>x. uf_rep u x = r) (uf_handles u))"

definition uf_link :: "vertex \<Rightarrow> vertex \<Rightarrow> uf \<Rightarrow> uf" where
  "uf_link child root u = u\<lparr>uf_rep := (\<lambda>x. if uf_rep u x = child then root else uf_rep u x)\<rparr>"

definition unify_sets :: "vertex \<Rightarrow> vertex \<Rightarrow> uf \<Rightarrow> uf" where
  "unify_sets v1 v2 u =
     (let p = uf_find u v1; q = uf_find u v2
      in if p = q then u
         else if uf_size u p > uf_size u q then uf_link q p u
         else uf_link p q u)"

definition uf_join_vertices :: "vertex \<Rightarrow> vertex \<Rightarrow> uf \<Rightarrow> uf" where
  "uf_join_vertices v1 v2 u = unify_sets v1 v2 (uf_get_handle v2 (uf_get_handle v1 u))"

subsection \<open>Topology Surgery Engine\<close>

text \<open>
  \<^verbatim>\<open>update_target_vertex\<close>: a do-while loop around the fan of the target of \<open>h\<close>.
  The first argument bounds the number of iterations of the body.
\<close>

fun update_target_loop :: "nat \<Rightarrow> halfedge \<Rightarrow> halfedge \<Rightarrow> vertex \<Rightarrow> 'p mesh \<Rightarrow> 'p mesh option" where
  "update_target_loop 0 start h v_kept pm = None"
| "update_target_loop (Suc n) start h v_kept pm =
     (let pm' = set_target h v_kept pm;
          h' = opposite pm' (next_he pm' h)
      in if h' \<noteq> start then update_target_loop n start h' v_kept pm' else Some pm')"

definition update_target_vertex :: "nat \<Rightarrow> halfedge \<Rightarrow> vertex \<Rightarrow> 'p mesh \<Rightarrow> 'p mesh option" where
  "update_target_vertex fuel h v_kept pm = update_target_loop fuel h h v_kept pm"

text \<open>
  The first loop of \<^verbatim>\<open>run_stitch_borders\<close>, for one pair: the two merge points of the
  pair are resolved to the vertex the union-find keeps, the fans of the other vertices are
  retargeted and those vertices are scheduled for deletion.
\<close>

type_synonym 'p surgery = "'p mesh \<times> uf \<times> vertex list"

definition retarget ::
  "nat \<Rightarrow> bool \<Rightarrow> vertex \<Rightarrow> halfedge \<Rightarrow> vertex \<Rightarrow> 'p mesh \<times> vertex list \<Rightarrow> ('p mesh \<times> vertex list) option" where
  "retarget fuel c v h v_to_keep s =
     (if c then map_option (\<lambda>pm'. (pm', snd s @ [v])) (update_target_vertex fuel h v_to_keep (fst s))
      else Some s)"

definition merge_vertices :: "nat \<Rightarrow> halfedge \<times> halfedge \<Rightarrow> 'p surgery \<Rightarrow> 'p surgery option" where
  "merge_vertices fuel hk s =
     (case s of (pm, u, vertices_to_delete) \<Rightarrow>
      let h1 = fst hk; h2 = snd hk;
          h1_tgt = target pm h1; h2_src = source pm h2;
          u1 = uf_get_handle h1_tgt u;
          v_to_keep = uf_find u1 h1_tgt
      in do {
        s1 \<leftarrow> retarget fuel (v_to_keep \<noteq> h1_tgt) h1_tgt h1 v_to_keep (pm, vertices_to_delete);
        s2 \<leftarrow> retarget fuel (v_to_keep \<noteq> h2_src \<and> h1_tgt \<noteq> h2_src) h2_src
                 (opposite (fst s1) h2) v_to_keep s1;
        let pm2 = set_vertex_halfedge v_to_keep h1 (fst s2);
            h1_src = source pm2 h1; h2_tgt = target pm2 h2;
            u2 = uf_get_handle h2_tgt u1;
            v_to_keep' = uf_find u2 h2_tgt
        in do {
          s3 \<leftarrow> retarget fuel (v_to_keep' \<noteq> h2_tgt) h2_tgt h2 v_to_keep' (pm2, snd s2);
          s4 \<leftarrow> retarget fuel (v_to_keep' \<noteq> h1_src \<and> h1_src \<noteq> h2_tgt) h1_src
                   (opposite (fst s3) h1) v_to_keep' s3;
          Some (set_vertex_halfedge v_to_keep' (opposite (fst s4) h1) (fst s4), u2, snd s4)
        }
      })"

fun merge_all :: "nat \<Rightarrow> (halfedge \<times> halfedge) list \<Rightarrow> 'p surgery \<Rightarrow> 'p surgery option" where
  "merge_all fuel [] s = Some s"
| "merge_all fuel (hk # to_stitch) s =
     (case merge_vertices fuel hk s of None \<Rightarrow> None | Some s' \<Rightarrow> merge_all fuel to_stitch s')"

text \<open>The second loop: next/prev of the halfedges flanking each pair.\<close>

definition relink :: "halfedge \<times> halfedge \<Rightarrow> 'p mesh \<Rightarrow> 'p mesh" where
  "relink hk pm =
     (let h1 = fst hk; h2 = snd hk;
          pm1 = set_next (prev_he pm h2) (next_he pm h1) pm
      in set_next (prev_he pm1 h1) (next_he pm1 h2) pm1)"

text \<open>The third loop: \<open>h1\<close> takes the place of the opposite of \<open>h2\<close>, whose edge is removed.\<close>

definition splice :: "halfedge \<times> halfedge \<Rightarrow> 'p mesh \<Rightarrow> 'p mesh" where
  "splice hk pm =
     (let h1 = fst hk; h2 = snd hk;
          pm1 = set_face h1 (face pm (opposite pm h2)) pm;
          pm2 = set_face_halfedge (face pm1 h1) h1 pm1;
          pm3 = set_next (prev_he pm2 (opposite pm2 h2)) h1 pm2;
          pm4 = set_next h1 (next_he pm3 (opposite pm3 h2)) pm3
      in remove_edge h2 pm4)"

definition run_stitch_borders ::
  "nat \<Rightarrow> 'p mesh \<Rightarrow> (halfedge \<times> halfedge) list \<Rightarrow> uf \<Rightarrow> 'p mesh option" where
  "run_stitch_borders fuel pmesh to_stitch uf_vertices =
     (case merge_all fuel to_stitch (pmesh, uf_vertices, []) of
        None \<Rightarrow> None
      | Some (pm1, u, vertices_to_delete) \<Rightarrow>
          Some (fold remove_vertex vertices_to_delete
                  (fold splice to_stitch (fold relink to_stitch pm1))))"

subsection \<open>Manifold-Safety Filter\<close>

definition join_pair :: "'p mesh \<Rightarrow> halfedge \<times> halfedge \<Rightarrow> uf \<Rightarrow> uf" where
  "join_pair pm hk u =
     (let h1 = fst hk; h2 = snd hk;
          tgt1 = target pm h1; src1 = source pm h1;
          src2 = source pm h2; tgt2 = target pm h2
      in uf_join_vertices src1 tgt2 (uf_join_vertices tgt1 src2 u))"

definition merge_the_vertices :: "'p mesh \<Rightarrow> (halfedge \<times> halfedge) list \<Rightarrow> uf" where
  "merge_the_vertices pm to_stitch = fold (join_pair pm) to_stitch empty_uf"

text \<open>
  Modelled from the spec: \<^verbatim>\<open>halfedges_around_target(vd, pmesh)\<close> is not part of the
  header. It is the finite sequence of the halfedges incident to a vertex: it starts at the
  halfedge of the vertex and steps with \<open>opposite (next h)\<close> until it is back at the start.
\<close>

fun around_target_loop :: "nat \<Rightarrow> 'p mesh \<Rightarrow> halfedge \<Rightarrow> halfedge \<Rightarrow> halfedge list option" where
  "around_target_loop 0 pm start h = None"
| "around_target_loop (Suc n) pm start h =
     (let h' = opposite pm (next_he pm h)
      in if h' = start then Some [h]
         else map_option ((#) h) (around_target_loop n pm start h'))"

definition halfedges_around_target :: "nat \<Rightarrow> 'p mesh \<Rightarrow> vertex \<Rightarrow> halfedge list option" where
  "halfedges_around_target fuel pm vd =
     around_target_loop fuel pm (vertex_halfedge pm vd) (vertex_halfedge pm vd)"

definition make_sorted_pair :: "vertex \<Rightarrow> vertex \<Rightarrow> vertex \<times> vertex" where
  "make_sorted_pair a b = (if a < b then (a, b) else (b, a))"

text \<open>
  \<^verbatim>\<open>Halfedges_after_stitching\<close>, an unordered map from a pair of vertices to a vector of
  halfedges, as an association list; \<open>push_back_at\<close> is \<^verbatim>\<open>map[key].push_back(hd)\<close>.
  The source iterates over the unordered map of the handles in an unspecified order; the
  model visits the handles in the order of their insertion.
\<close>

type_synonym halfedges_after_stitching = "((vertex \<times> vertex) \<times> halfedge list) list"

fun push_back_at :: "vertex \<times> vertex \<Rightarrow> halfedge \<Rightarrow> halfedges_after_stitching \<Rightarrow> halfedges_after_stitching" where
  "push_back_at key h [] = [(key, [h])]"
| "push_back_at key h ((k, hs) # rest) =
     (if k = key then (k, hs @ [h]) # rest else (k, hs) # push_back_at key h rest)"

definition report_halfedge ::
  "'p mesh \<Rightarrow> uf \<Rightarrow> vertex \<Rightarrow> halfedge \<Rightarrow> halfedges_after_stitching \<Rightarrow> halfedges_after_stitching" where
  "report_halfedge pm u vd h acc =
     (let other_vd = source pm h
      in if other_vd \<in> set (uf_handles u) then
           (if other_vd < vd then acc
            else push_back_at (make_sorted_pair (uf_find u vd) (uf_find u other_vd)) h acc)
         else push_back_at (make_sorted_pair (uf_find u vd) other_vd) h acc)"

fun collect_after_stitching ::
  "nat \<Rightarrow> 'p mesh \<Rightarrow> uf \<Rightarrow> vertex list \<Rightarrow> halfedges_after_stitching \<Rightarrow> halfedges_after_stitching option" where
  "collect_after_stitching fuel pm u [] acc = Some acc"
| "collect_after_stitching fuel pm u (vd # vds) acc =
     (case halfedges_around_target fuel pm vd of
        None \<Rightarrow> None
      | Some hs \<Rightarrow> collect_after_stitching fuel pm u vds (fold (report_halfedge pm u vd) hs acc))"

text \<open>
  The \<^verbatim>\<open>switch\<close> on the number of halfedges of a key: one halfedge is fine, two are fine
  when both lie on border edges, anything else marks the endpoints of all of them.
\<close>

definition mark_endpoints :: "'p mesh \<Rightarrow> halfedge \<Rightarrow> vertex list \<Rightarrow> vertex list" where
  "mark_endpoints pm h acc = List.insert (target pm h) (List.insert (source pm h) acc)"

definition mark_group :: "'p mesh \<Rightarrow> halfedge list \<Rightarrow> vertex list \<Rightarrow> vertex list" where
  "mark_group pm hs acc =
     (if length hs = 1 then acc
      else if length hs = 2 \<and> is_border_edge pm (hd hs) \<and> is_border_edge pm (last hs) then acc
      else fold (mark_endpoints pm) hs acc)"

definition unstitchable_vertices :: "'p mesh \<Rightarrow> halfedges_after_stitching \<Rightarrow> vertex list" where
  "unstitchable_vertices pm groups = fold (\<lambda>g. mark_group pm (snd g)) groups []"

definition stitchable :: "'p mesh \<Rightarrow> vertex list \<Rightarrow> halfedge \<times> halfedge \<Rightarrow> bool" where
  "stitchable pm unst hk =
     (source pm (fst hk) \<notin> set unst \<and> target pm (fst hk) \<notin> set unst \<and>
      source pm (snd hk) \<notin> set unst \<and> target pm (snd hk) \<notin> set unst)"

text \<open>
  The part of \<^verbatim>\<open>stitch_borders_impl\<close> before the surgery: the pairs and the union-find
  that are handed to \<^verbatim>\<open>run_stitch_borders\<close>.
\<close>

definition manifold_filter ::
  "nat \<Rightarrow> 'p mesh \<Rightarrow> (halfedge \<times> halfedge) list \<Rightarrow> ((halfedge \<times> halfedge) list \<times> uf) option" where
  "manifold_filter fuel pmesh to_stitch =
     (let uf_vertices = merge_the_vertices pmesh to_stitch
      in case collect_after_stitching fuel pmesh uf_vertices (uf_handles uf_vertices) [] of
           None \<Rightarrow> None
         | Some groups \<Rightarrow>
             let unst = unstitchable_vertices pmesh groups
             in if unst \<noteq> [] then
                  let to_stitch_filtered = filter (stitchable pmesh unst) to_stitch
                  in Some (to_stitch_filtered, merge_the_vertices pmesh to_stitch_filtered)
                else Some (to_stitch, uf_vertices))"

definition stitch_borders_impl ::
  "nat \<Rightarrow> 'p mesh \<Rightarrow> (halfedge \<times> halfedge) list \<Rightarrow> 'p mesh option" where
  "stitch_borders_impl fuel pmesh to_stitch =
     (case manifold_filter fuel pmesh to_stitch of
        None \<Rightarrow> None
      | Some (pairs, uf_vertices) \<Rightarrow> run_stitch_borders fuel pmesh pairs uf_vertices)"

subsection \<open>Boundary Cycle Self-Stitcher\<close>

definition fold_point :: "'p mesh \<Rightarrow> halfedge \<Rightarrow> bool" where
  "fold_point pm hn =
     (point pm (source pm hn) = point pm (target pm (next_he pm hn)) \<and>
      point pm (source pm hn) \<noteq> point pm (target pm hn))"

text \<open>
  The scan for the starting points: \<^verbatim>\<open>hn = next(h); while(hn != h) { ...; hn = next(hn); }\<close>.
  The bound counts the evaluations of the loop condition.
\<close>

fun starting_points_loop :: "nat \<Rightarrow> 'p mesh \<Rightarrow> halfedge \<Rightarrow> halfedge \<Rightarrow> halfedge list option" where
  "starting_points_loop 0 pm h hn = None"
| "starting_points_loop (Suc n) pm h hn =
     (if hn \<noteq> h then
        map_option (\<lambda>rest. if fold_point pm hn then hn # rest else rest)
          (starting_points_loop n pm h (next_he pm hn))
      else Some [])"

definition stitching_starting_points :: "nat \<Rightarrow> 'p mesh \<Rightarrow> halfedge \<Rightarrow> halfedge list option" where
  "stitching_starting_points fuel pm h = starting_points_loop fuel pm h (next_he pm h)"

text \<open>
  The walk from one starting point, the do-while loop of \<^verbatim>\<open>stitch_boundary_cycle\<close>:
  it returns \<^verbatim>\<open>hedges_to_stitch\<close> and the updated \<^verbatim>\<open>stitched_hedges\<close>.
\<close>

fun walk :: "nat \<Rightarrow> 'p mesh \<Rightarrow> halfedge \<Rightarrow> halfedge \<Rightarrow> (halfedge \<times> halfedge) list \<Rightarrow> halfedge list
    \<Rightarrow> ((halfedge \<times> halfedge) list \<times> halfedge list) option" where
  "walk 0 pm h hn hedges_to_stitch stitched_hedges = None"
| "walk (Suc n) pm h hn hedges_to_stitch stitched_hedges =
     (if face pm (opposite pm h) = face pm (opposite pm hn) then
        Some (hedges_to_stitch, stitched_hedges)
      else
        let hedges_to_stitch' = hedges_to_stitch @ [(h, hn)];
            stitched_hedges' = List.insert hn (List.insert h stitched_hedges)
        in if next_he pm hn = h then Some (hedges_to_stitch', stitched_hedges')
           else
             let h' = prev_he pm h; hn' = next_he pm hn
             in if point pm (source pm h') \<noteq> point pm (target pm hn') \<or>
                   point pm (source pm hn') = point pm (target pm hn')
                then Some (hedges_to_stitch', stitched_hedges')
                else walk n pm h' hn' hedges_to_stitch' stitched_hedges')"

text \<open>
  The loop over the starting points. The state is the mesh, \<^verbatim>\<open>stitched_hedges\<close> and the
  counter \<^verbatim>\<open>stitched_boundary_cycles_n\<close>.
\<close>

fun stitch_from :: "nat \<Rightarrow> halfedge list \<Rightarrow> 'p mesh \<Rightarrow> halfedge list \<Rightarrow> nat \<Rightarrow> ('p mesh \<times> nat) option" where
  "stitch_from fuel [] pm stitched_hedges n = Some (pm, n)"
| "stitch_from fuel (h # starting_points) pm stitched_hedges n =
     (if h \<in> set stitched_hedges then stitch_from fuel starting_points pm stitched_hedges n
      else
        case walk fuel pm h (next_he pm h) [] stitched_hedges of
          None \<Rightarrow> None
        | Some (hedges_to_stitch, stitched_hedges') \<Rightarrow>
            if hedges_to_stitch \<noteq> [] then
              (case stitch_borders_impl fuel pm hedges_to_stitch of
                 None \<Rightarrow> None
               | Some pm' \<Rightarrow>
                   stitch_from fuel starting_points pm' stitched_hedges' (n + length hedges_to_stitch))
            else stitch_from fuel starting_points pm stitched_hedges' n)"

definition stitch_boundary_cycle :: "nat \<Rightarrow> halfedge \<Rightarrow> 'p mesh \<Rightarrow> ('p mesh \<times> nat) option" where
  "stitch_boundary_cycle fuel h pm =
     (case stitching_starting_points fuel pm h of
        None \<Rightarrow> None
      | Some starting_points \<Rightarrow> stitch_from fuel starting_points pm [] 0)"

text \<open>
  Modelled from the spec: \<^verbatim>\<open>extract_boundary_cycles\<close> is not part of the header. A
  boundary cycle is a maximal next-linked loop of border halfedges; the function outputs one
  halfedge for each cycle, the first one met in the iteration over the halfedges.
\<close>

fun around_face_loop :: "nat \<Rightarrow> 'p mesh \<Rightarrow> halfedge \<Rightarrow> halfedge \<Rightarrow> halfedge list option" where
  "around_face_loop 0 pm start h = None"
| "around_face_loop (Suc n) pm start h =
     (let h' = next_he pm h
      in if h' = start then Some [h]
         else map_option ((#) h) (around_face_loop n pm start h'))"

fun extract_loop :: "nat \<Rightarrow> 'p mesh \<Rightarrow> halfedge list \<Rightarrow> halfedge list \<Rightarrow> halfedge list option" where
  "extract_loop fuel pm [] hedge_handled = Some []"
| "extract_loop fuel pm (h # hs) hedge_handled =
     (if is_border pm h \<and> h \<notin> set hedge_handled then
        (case around_face_loop fuel pm h h of
           None \<Rightarrow> None
         | Some cycle \<Rightarrow> map_option ((#) h) (extract_loop fuel pm hs (cycle @ hedge_handled)))
      else extract_loop fuel pm hs hedge_handled)"

definition extract_boundary_cycles :: "nat \<Rightarrow> 'p mesh \<Rightarrow> halfedge list option" where
  "extract_boundary_cycles fuel pm = extract_loop fuel pm (halfedges pm) []"

fun stitch_cycles_loop :: "nat \<Rightarrow> halfedge list \<Rightarrow> 'p mesh \<Rightarrow> nat \<Rightarrow> ('p mesh \<times> nat) option" where
  "stitch_cycles_loop fuel [] pm n = Some (pm, n)"
| "stitch_cycles_loop fuel (h # boundary_cycles) pm n =
     (case stitch_boundary_cycle fuel h pm of
        None \<Rightarrow> None
      | Some (pm', k) \<Rightarrow> stitch_cycles_loop fuel boundary_cycles pm' (n + k))"

definition stitch_boundary_cycles :: "nat \<Rightarrow> 'p mesh \<Rightarrow> ('p mesh \<times> nat) option" where
  "stitch_boundary_cycles fuel pm =
     (case extract_boundary_cycles fuel pm of
        None \<Rightarrow> None
      | Some boundary_cycles \<Rightarrow> stitch_cycles_loop fuel boundary_cycles pm 0)"

subsection \<open>Public entry points\<close>

text \<open>
  \<^verbatim>\<open>stitch_borders(pmesh, hedge_pairs_to_stitch)\<close>: the given pairs, no discovery. The
  function is \<^verbatim>\<open>void\<close>: the result is the mesh, and the value returned is of type
  \<open>unit\<close>.
\<close>

definition stitch_borders ::
  "nat \<Rightarrow> 'p mesh \<Rightarrow> (halfedge \<times> halfedge) list \<Rightarrow> ('p mesh \<times> unit) option" where
  "stitch_borders fuel pmesh hedge_pairs_to_stitch =
     map_option (\<lambda>pm. (pm, ())) (stitch_borders_impl fuel pmesh hedge_pairs_to_stitch)"

text \<open>
  The named parameters that the header reads: \<^verbatim>\<open>apply_per_connected_component\<close>, and
  the labelling of the faces by the Connected-Components collaborator, which is asked for
  only in the per-component mode. \<open>all_default\<close> is \<^verbatim>\<open>parameters::all_default()\<close>.
\<close>

record 'p named_parameters =
  apply_per_connected_component :: bool
  connected_components :: "'p mesh \<Rightarrow> (face \<Rightarrow> nat) \<times> nat"

definition all_default :: "'p named_parameters" where
  "all_default = \<lparr>apply_per_connected_component = False,
     connected_components = (\<lambda>pm. ((\<lambda>f. 0), 0))\<rparr>"

definition collect_with :: "('p::linorder) named_parameters \<Rightarrow> 'p mesh \<Rightarrow> (halfedge \<times> halfedge) list option" where
  "collect_with np pm =
     (if apply_per_connected_component np then
        collect_per_cc pm (fst (connected_components np pm)) (snd (connected_components np pm))
      else Some (collect_duplicated_stitchable_boundary_edges pm))"

text \<open>
  \<^verbatim>\<open>stitch_borders(pmesh, np)\<close>: the pairs are discovered. The function is \<^verbatim>\<open>void\<close>
  too; the numbers that the two calls of \<^verbatim>\<open>stitch_boundary_cycles\<close> return are dropped.
\<close>

definition stitch_borders_np ::
  "nat \<Rightarrow> ('p::linorder) named_parameters \<Rightarrow> 'p mesh \<Rightarrow> ('p mesh \<times> unit) option" where
  "stitch_borders_np fuel np pmesh =
     do {
       r1 \<leftarrow> stitch_boundary_cycles fuel pmesh;
       hedge_pairs_to_stitch \<leftarrow> collect_with np (fst r1);
       r2 \<leftarrow> stitch_borders fuel (fst r1) hedge_pairs_to_stitch;
       r3 \<leftarrow> stitch_boundary_cycles fuel (fst r2);
       Some (fst r3, ())
     }"

subsection \<open>Invariant of the collector\<close>

text \<open>
  The state of the collector after the border halfedges \<open>xs\<close> have gone through
  \<^verbatim>\<open>fill_pairs\<close>, key by key: the map holds the first halfedge with the key and the
  number of halfedges with it; from the second one on, the pair of the first two is at the
  index stored, flagged manifold when there are exactly two and their directions match.
\<close>

definition occurrences :: "('p::linorder) mesh \<Rightarrow> halfedge list \<Rightarrow> 'p \<times> 'p \<Rightarrow> halfedge list" where
  "occurrences pm xs k = filter (\<lambda>h. hkey pm h = k) xs"

definition direction_match :: "'p mesh \<Rightarrow> halfedge \<Rightarrow> halfedge \<Rightarrow> bool" where
  "direction_match pm h1 h2 =
     (point pm (source pm h2) = point pm (target pm h1) \<and>
      point pm (target pm h2) = point pm (source pm h1))"

definition key_inv :: "('p::linorder) mesh \<Rightarrow> halfedge list \<Rightarrow> 'p collector \<Rightarrow> 'p \<times> 'p \<Rightarrow> bool" where
  "key_inv pm xs c k =
     (case occurrences pm xs k of
        [] \<Rightarrow> border_halfedge_map c k = None
      | [h0] \<Rightarrow> (\<exists>idx. border_halfedge_map c k = Some (h0, 1, idx))
      | h0 # h1 # rest \<Rightarrow>
          (\<exists>idx. border_halfedge_map c k = Some (h0, length rest + 2, idx) \<and>
                 idx < length (halfedge_pairs c) \<and>
                 halfedge_pairs c ! idx = (h0, h1) \<and>
                 manifold_halfedge_pairs c ! idx = (rest = [] \<and> direction_match pm h0 h1)))"

definition collector_inv :: "('p::linorder) mesh \<Rightarrow> halfedge list \<Rightarrow> 'p collector \<Rightarrow> bool" where
  "collector_inv pm xs c =
     (length (manifold_halfedge_pairs c) = length (halfedge_pairs c) \<and>
      (\<forall>k. key_inv pm xs c k) \<and>
      (\<forall>i < length (halfedge_pairs c). \<exists>h0 n.
          border_halfedge_map c (hkey pm (fst (halfedge_pairs c ! i))) = Some (h0, n, i) \<and> 2 \<le> n))"

subsection \<open>What the surgery leaves in place\<close>

text \<open>
  \<open>same_arena\<close> relates two meshes with the same halfedges, vertices, faces, opposites and
  points: everything the surgery does before it removes an edge or a vertex stays within
  it. \<open>removed_halfedges\<close> lists, for the pairs handed to the surgery, the halfedges of
  the edges that \<^verbatim>\<open>remove_edge\<close> deletes.
\<close>

definition same_arena :: "'p mesh \<Rightarrow> 'p mesh \<Rightarrow> bool" where
  "same_arena pm pm' =
     (opposite_map pm' = opposite_map pm \<and> halfedges pm' = halfedges pm \<and>
      vertices pm' = vertices pm \<and> faces pm' = faces pm \<and> vpm pm' = vpm pm)"

definition removed_halfedges :: "'p mesh \<Rightarrow> (halfedge \<times> halfedge) list \<Rightarrow> halfedge list" where
  "removed_halfedges pm pairs = concat (map (\<lambda>hk. [snd hk, opposite pm (snd hk)]) pairs)"

text \<open>
  \<open>opposite_closed\<close> is the invariant of the edge records: \<open>opposite\<close> is an involution,
  the opposite of a halfedge of the mesh is a halfedge of the mesh, and no halfedge is
  listed twice.
\<close>

definition opposite_closed :: "'p mesh \<Rightarrow> bool" where
  "opposite_closed pm =
     ((\<forall>h. opposite pm (opposite pm h) = h) \<and>
      (\<forall>h \<in> set (halfedges pm). opposite pm h \<in> set (halfedges pm)) \<and>
      distinct (halfedges pm))"

text \<open>
  \<open>stitch_step\<close>: one run of the filter and the surgery, on some pairs.
\<close>

definition stitch_step :: "nat \<Rightarrow> 'p mesh \<Rightarrow> 'p mesh \<Rightarrow> bool" where
  "stitch_step fuel pm pm' = (\<exists>pairs. stitch_borders_impl fuel pm pairs = Some pm')"

subsection \<open>Edges as vertex pairs\<close>

text \<open>
  After the vertices of a pair have been merged, an edge is a pair of vertices: \<open>joins\<close>
  says that a halfedge runs between two vertices, in either direction. \<open>faces_on pm a b\<close>
  lists the halfedges incident to the edge \<open>a\<close>--\<open>b\<close>: the halfedges of the mesh that
  join \<open>a\<close> and \<open>b\<close> and have a face, one for every face along the edge. A border
  halfedge bounds no face and is not counted. The edge is manifold, in the words of the
  spec an edge bounding at most two faces, when this list has at most two halfedges.
\<close>

definition joins :: "'p mesh \<Rightarrow> halfedge \<Rightarrow> vertex \<Rightarrow> vertex \<Rightarrow> bool" where
  "joins pm h a b = ((source pm h = a \<and> target pm h = b) \<or> (source pm h = b \<and> target pm h = a))"

definition faces_on :: "'p mesh \<Rightarrow> vertex \<Rightarrow> vertex \<Rightarrow> halfedge list" where
  "faces_on pm a b = filter (\<lambda>h. \<not> is_border pm h \<and> joins pm h a b) (halfedges pm)"

text \<open>
  The filter and the surgery walk around vertices. \<open>valid_fans\<close> is what they expect of
  the mesh they are given: from every halfedge of the mesh, the circulation
  \<open>opposite (next h)\<close> comes back to it and has then visited the halfedges of the mesh that
  point to the same vertex, \<open>fan_of\<close>, and the halfedge stored for that vertex is one of
  them.
\<close>

definition fan_of :: "'p mesh \<Rightarrow> vertex \<Rightarrow> halfedge list" where
  "fan_of pm v = filter (\<lambda>h. target pm h = v) (halfedges pm)"

definition valid_fans :: "nat \<Rightarrow> 'p mesh \<Rightarrow> bool" where
  "valid_fans fuel pm =
     (\<forall>h \<in> set (halfedges pm).
        map_option set (around_target_loop fuel pm h h) = Some (set (fan_of pm (target pm h))) \<and>
        vertex_halfedge pm (target pm h) \<in> set (halfedges pm) \<and>
        target pm (vertex_halfedge pm (target pm h)) = target pm h)"

subsection \<open>Classes of the union-find\<close>

text \<open>
  \<open>uf_class u v\<close> is the vertex that stands for \<open>v\<close> after the merge: its representative
  when \<open>v\<close> has a handle, \<open>v\<close> itself otherwise. \<open>uf_ok\<close> is the invariant of the
  structure: the representative of a vertex with a handle has a handle and represents
  itself. \<open>refines u' u\<close>: vertices in one class of \<open>u'\<close> are in one class of \<open>u\<close>.
  \<open>endpoints\<close> are the vertices that \<^verbatim>\<open>merge_the_vertices\<close> gives a handle.
\<close>

definition uf_class :: "uf \<Rightarrow> vertex \<Rightarrow> vertex" where
  "uf_class u v = (if v \<in> set (uf_handles u) then uf_rep u v else v)"

definition uf_ok :: "uf \<Rightarrow> bool" where
  "uf_ok u = (\<forall>x \<in> set (uf_handles u). uf_rep u x \<in> set (uf_handles u) \<and>
                 uf_rep u (uf_rep u x) = uf_rep u x)"

definition refines :: "uf \<Rightarrow> uf \<Rightarrow> bool" where
  "refines u' u = (\<forall>x y. uf_class u' x = uf_class u' y \<longrightarrow> uf_class u x = uf_class u y)"







subsection \<open>Concrete meshes\<close>

text \<open>
  Meshes are written as tables indexed by the descriptors. \<open>two_triangles\<close> has the faces
  \<open>(0, 1, 2)\<close> and \<open>(4, 3, 5)\<close>; the vertices 0 and 3 have the same point, so have 1 and 4:
  the border halfedges 1 and 7 are the two sides of a duplicated edge.
\<close>

definition table :: "'a \<Rightarrow> 'a list \<Rightarrow> nat \<Rightarrow> 'a" where
  "table d xs i = (if i < length xs then xs ! i else d)"

text \<open>The two halfedges of an edge have the indices \<open>2 * e\<close> and \<open>2 * e + 1\<close>.\<close>

definition edge_partner :: "halfedge \<Rightarrow> halfedge" where
  "edge_partner h = (if even h then h + 1 else h - 1)"

definition two_triangles :: "nat mesh" where
  "two_triangles =
     \<lparr>halfedges = [0, 1, 2, 3, 4, 5, 6, 7, 8, 9, 10, 11],
      vertices = [0, 1, 2, 3, 4, 5],
      faces = [0, 1],
      target_map = table 0 [1, 0, 2, 1, 0, 2, 3, 4, 5, 3, 4, 5],
      opposite_map = edge_partner,
      next_map = table 0 [2, 5, 4, 1, 0, 3, 8, 11, 10, 7, 6, 9],
      prev_map = table 0 [4, 3, 0, 5, 2, 1, 10, 9, 6, 11, 8, 7],
      face_map = table None [Some 0, None, Some 0, None, Some 0, None,
                             Some 1, None, Some 1, None, Some 1, None],
      vertex_halfedge = table 0 [1, 3, 5, 9, 7, 11],
      face_halfedge = table 0 [0, 6],
      vpm = table 0 [10, 11, 12, 10, 11, 13]\<rparr>"

text \<open>\<open>two_triangles_apart\<close> has the same connectivity and six different points.\<close>

definition two_triangles_apart :: "nat mesh" where
  "two_triangles_apart = two_triangles\<lparr>vpm := table 0 [10, 11, 12, 14, 15, 13]\<rparr>"

text \<open>
  \<open>folded_ring\<close> is a ring of five quadrangles between an inner cycle of the vertices
  0 to 4 and an outer cycle of the vertices 5 to 9. The vertices 0 and 3 have the same point:
  the inner boundary cycle, the halfedges 1, 27, 21, 15, 9, folds onto itself at the
  halfedge 1, whose successor 27 runs back to the point it started from.
\<close>

definition folded_ring :: "nat mesh" where
  "folded_ring =
     \<lparr>halfedges = [0, 1, 2, 3, 4, 5, 6, 7, 8, 9, 10, 11, 12, 13, 14, 15, 16, 17, 18, 19, 20, 21, 22, 23, 24, 25, 26, 27, 28, 29],
      vertices = [0, 1, 2, 3, 4, 5, 6, 7, 8, 9],
      faces = [0, 1, 2, 3, 4],
      target_map = table 0 [0, 4, 5, 0, 9, 5, 4, 9, 1, 0, 6, 1, 5, 6, 2, 1, 7, 2, 6, 7, 3, 2, 8, 3, 7, 8, 4, 3, 8, 9],
      opposite_map = edge_partner,
      next_map = table 0 [2, 27, 4, 8, 6, 13, 0, 28, 10, 1, 12, 14, 3, 19, 16, 9, 18, 20, 11, 25, 22, 15, 24, 26, 17, 29, 7, 21, 23, 5],
      prev_map = table 0 [6, 9, 0, 12, 2, 29, 4, 26, 3, 15, 8, 18, 10, 5, 11, 21, 14, 24, 16, 13, 17, 27, 20, 28, 22, 19, 23, 1, 7, 25],
      face_map = table None [Some 0, None, Some 0, Some 1, Some 0, None, Some 0, Some 4, Some 1, None, Some 1, Some 2, Some 1, None, Some 2, None, Some 2, Some 3, Some 2, None, Some 3, None, Some 3, Some 4, Some 3, None, Some 4, None, Some 4, None],
      vertex_halfedge = table 0 [9, 15, 21, 27, 1, 5, 13, 19, 25, 29],
      face_halfedge = table 0 [0, 3, 11, 17, 7],
      vpm = table 0 [10, 12, 11, 10, 13, 20, 21, 22, 23, 24]\<rparr>"

text \<open>
  \<open>four_parts\<close> has four components: the quadrangles \<open>(2, 3, 0, 1)\<close> and
  \<open>(4, 5, 6, 7)\<close> and the triangles \<open>(8, 9, 10)\<close> and \<open>(11, 12, 13)\<close>. The border
  halfedges 5 and 11 are the two sides of a duplicated edge; the border halfedges 7, 9, 17
  and 23 all have the same pair of endpoint points.
\<close>

definition four_parts :: "nat mesh" where
  "four_parts =
     \<lparr>halfedges = [0, 1, 2, 3, 4, 5, 6, 7, 8, 9, 10, 11, 12, 13, 14, 15, 16, 17, 18, 19, 20, 21, 22, 23, 24, 25, 26, 27],
      vertices = [0, 1, 2, 3, 4, 5, 6, 7, 8, 9, 10, 11, 12, 13],
      faces = [0, 1, 2, 3],
      target_map = table 0 [3, 2, 0, 3, 1, 0, 2, 1, 5, 4, 6, 5, 7, 6, 4, 7, 9, 8, 10, 9, 8, 10, 12, 11, 13, 12, 11, 13],
      opposite_map = edge_partner,
      next_map = table 0 [2, 7, 4, 1, 6, 3, 0, 5, 10, 15, 12, 9, 14, 11, 8, 13, 18, 21, 20, 17, 16, 19, 24, 27, 26, 23, 22, 25],
      prev_map = table 0 [6, 3, 0, 5, 2, 7, 4, 1, 14, 11, 8, 13, 10, 15, 12, 9, 20, 19, 16, 21, 18, 17, 26, 25, 22, 27, 24, 23],
      face_map = table None [Some 0, None, Some 0, None, Some 0, None, Some 0, None, Some 1, None, Some 1, None, Some 1, None, Some 1, None, Some 2, None, Some 2, None, Some 2, None, Some 3, None, Some 3, None, Some 3, None],
      vertex_halfedge = table 0 [5, 7, 1, 3, 9, 11, 13, 15, 17, 19, 21, 23, 25, 27],
      face_halfedge = table 0 [0, 8, 16, 22],
      vpm = table 0 [3, 2, 1, 4, 1, 2, 3, 5, 2, 1, 6, 1, 2, 7]\<rparr>"

text \<open>
  \<open>folded_fan\<close> is a fan of five triangles around the vertex 0. The vertices 1 and 4 of
  its boundary cycle have the same point and both are joined to the centre: stitching the
  border halfedges 3 and 19 would put the edges from the centre to 1 and to 4 on the same
  two vertices.
\<close>

definition folded_fan :: "nat mesh" where
  "folded_fan =
     \<lparr>halfedges = [0, 1, 2, 3, 4, 5, 6, 7, 8, 9, 10, 11, 12, 13, 14, 15, 16, 17, 18, 19],
      vertices = [0, 1, 2, 3, 4, 5],
      faces = [0, 1, 2, 3, 4],
      target_map = table 0 [5, 0, 1, 5, 0, 1, 2, 1, 0, 2, 3, 2, 0, 3, 4, 3, 0, 4, 5, 4],
      opposite_map = edge_partner,
      next_map = table 0 [2, 17, 4, 19, 0, 6, 8, 3, 5, 10, 12, 7, 9, 14, 16, 11, 13, 18, 1, 15],
      prev_map = table 0 [4, 18, 0, 7, 2, 8, 5, 11, 6, 12, 9, 15, 10, 16, 13, 19, 14, 1, 17, 3],
      face_map = table None [Some 0, Some 4, Some 0, None, Some 0, Some 1, Some 1, None, Some 1, Some 2, Some 2, None, Some 2, Some 3, Some 3, None, Some 3, Some 4, Some 4, None],
      vertex_halfedge = table 0 [1, 7, 11, 15, 19, 3],
      face_halfedge = table 0 [0, 5, 9, 13, 1],
      vpm = table 0 [0, 10, 12, 11, 10, 13]\<rparr>"

text \<open>
  \<open>two_squares\<close> is a square and a mirrored copy of it with the same four points. The
  border halfedges 1 and 15 lie on one side of the two squares and 5 and 11 on the opposite
  side; the two sides between them stay open.
\<close>

definition two_squares :: "nat mesh" where
  "two_squares =
     \<lparr>halfedges = [0, 1, 2, 3, 4, 5, 6, 7, 8, 9, 10, 11, 12, 13, 14, 15],
      vertices = [0, 1, 2, 3, 4, 5, 6, 7],
      faces = [0, 1],
      target_map = table 0 [1, 0, 2, 1, 3, 2, 0, 3, 7, 4, 6, 7, 5, 6, 4, 5],
      opposite_map = edge_partner,
      next_map = table 0 [2, 7, 4, 1, 6, 3, 0, 5, 10, 15, 12, 9, 14, 11, 8, 13],
      prev_map = table 0 [6, 3, 0, 5, 2, 7, 4, 1, 14, 11, 8, 13, 10, 15, 12, 9],
      face_map = table None [Some 0, None, Some 0, None, Some 0, None, Some 0, None, Some 1, None, Some 1, None, Some 1, None, Some 1, None],
      vertex_halfedge = table 0 [1, 3, 5, 7, 9, 15, 13, 11],
      face_halfedge = table 0 [0, 8],
      vpm = table 0 [10, 11, 12, 13, 10, 11, 12, 13]\<rparr>"
section \<open>Properties\<close>

subsection \<open>Stitching an empty range of pairs\<close>

lemma manifold_filter_Nil: "manifold_filter fuel pmesh [] = Some ([], empty_uf)"
  by (simp add: manifold_filter_def merge_the_vertices_def empty_uf_def unstitchable_vertices_def)

lemma run_stitch_borders_Nil: "run_stitch_borders fuel pmesh [] u = Some pmesh"
  by (simp add: run_stitch_borders_def)

text \<open>
  C10: \<^verbatim>\<open>stitch_borders(pmesh, hedge_pairs_to_stitch)\<close> with an empty range of pairs
  returns, whatever the bound on the loops, and leaves the mesh as it is: the result is
  the very same record, so no vertex, halfedge or face is added, removed or relinked.
\<close>

theorem stitch_borders_empty_range: "stitch_borders fuel pmesh [] = Some (pmesh, ())"
  by (simp add: stitch_borders_def stitch_borders_impl_def manifold_filter_Nil run_stitch_borders_Nil)

theorem stitch_borders_empty_range_witness: "stitch_borders 0 two_triangles [] = Some (two_triangles, ())"
  using stitch_borders_empty_range [of 0 two_triangles] by simp

subsection \<open>The pairs the collector outputs\<close>

lemma occurrences_snoc:
  "occurrences pm (xs @ [he]) k = occurrences pm xs k @ (if hkey pm he = k then [he] else [])"
  by (simp add: occurrences_def)

lemma occurrences_hd_key:
  "occurrences pm xs k = h0 # rest \<Longrightarrow> hkey pm h0 = k"
proof -
  assume a: "occurrences pm xs k = h0 # rest"
  have "h0 \<in> set (occurrences pm xs k)" unfolding a by simp
  then show ?thesis by (simp add: occurrences_def)
qed

lemma collector_inv_empty: "collector_inv pm [] empty_collector"
  by (simp add: collector_inv_def key_inv_def occurrences_def empty_collector_def)

lemma collector_inv_step:
  assumes inv: "collector_inv pm xs c"
  shows "collector_inv pm (xs @ [he]) (fill_pairs pm he c)"
proof -
  let ?K = "hkey pm he"
  from inv have len: "length (manifold_halfedge_pairs c) = length (halfedge_pairs c)"
    and keys: "\<And>k. key_inv pm xs c k"
    and idxs: "\<And>i. i < length (halfedge_pairs c) \<Longrightarrow> \<exists>h0 n.
          border_halfedge_map c (hkey pm (fst (halfedge_pairs c ! i))) = Some (h0, n, i) \<and> 2 \<le> n"
    by (auto simp: collector_inv_def)
  show ?thesis
  proof (cases "occurrences pm xs ?K")
    case Nil
    with keys[of ?K] have m: "border_halfedge_map c ?K = None" by (simp add: key_inv_def)
    then have fp: "fill_pairs pm he c = c\<lparr>border_halfedge_map := (border_halfedge_map c)(?K \<mapsto> (he, 1, 0))\<rparr>"
      by (simp add: fill_pairs_def)
    have k1: "key_inv pm (xs @ [he]) (fill_pairs pm he c) k" for k
      using keys[of k] Nil unfolding fp key_inv_def occurrences_snoc
      by (auto split: list.splits)
    have k2: "\<exists>h0 n. border_halfedge_map (fill_pairs pm he c)
            (hkey pm (fst (halfedge_pairs (fill_pairs pm he c) ! i))) = Some (h0, n, i) \<and> 2 \<le> n"
      if "i < length (halfedge_pairs (fill_pairs pm he c))" for i
      using idxs[of i] that m unfolding fp by auto
    show ?thesis unfolding collector_inv_def using len k1 k2 by (simp add: fp)
  next
    case (Cons h0 rest0)
    note occ = Cons
    have h0k: "hkey pm h0 = ?K" using occurrences_hd_key[OF occ] .
    show ?thesis
    proof (cases rest0)
      case Nil
      with keys[of ?K] occ obtain idx where m: "border_halfedge_map c ?K = Some (h0, 1, idx)"
        by (auto simp: key_inv_def)
      have fp: "fill_pairs pm he c = c\<lparr>border_halfedge_map :=
                 (border_halfedge_map c)(?K \<mapsto> (h0, 2, length (halfedge_pairs c))),
              halfedge_pairs := halfedge_pairs c @ [(h0, he)],
              manifold_halfedge_pairs := manifold_halfedge_pairs c @
                 [point pm (source pm he) = point pm (target pm h0) \<and>
                  point pm (target pm he) = point pm (source pm h0)]\<rparr>"
        using m by (simp add: fill_pairs_def)
      have k1: "key_inv pm (xs @ [he]) (fill_pairs pm he c) k" for k
      proof (cases "k = ?K")
        case True
        then show ?thesis using occ Nil len unfolding fp key_inv_def occurrences_snoc
          by (simp add: direction_match_def nth_append)
      next
        case False
        then show ?thesis using keys[of k] len unfolding fp key_inv_def occurrences_snoc
          by (auto split: list.splits simp: nth_append)
      qed
      have k2: "\<exists>h0' n. border_halfedge_map (fill_pairs pm he c)
            (hkey pm (fst (halfedge_pairs (fill_pairs pm he c) ! i))) = Some (h0', n, i) \<and> 2 \<le> n"
        if "i < length (halfedge_pairs (fill_pairs pm he c))" for i
      proof (cases "i < length (halfedge_pairs c)")
        case True
        with idxs[of i] m show ?thesis unfolding fp by (auto simp: nth_append)
      next
        case False
        with that have "i = length (halfedge_pairs c)" unfolding fp by simp
        then show ?thesis unfolding fp using h0k by simp
      qed
      show ?thesis unfolding collector_inv_def using len k1 k2 by (simp add: fp)
    next
      case (Cons h1 rest)
      with keys[of ?K] occ obtain idx where
        m: "border_halfedge_map c ?K = Some (h0, length rest + 2, idx)"
        and idx: "idx < length (halfedge_pairs c)"
        and pr: "halfedge_pairs c ! idx = (h0, h1)"
        by (auto simp: key_inv_def)
      have fp: "fill_pairs pm he c = c\<lparr>border_halfedge_map :=
                 (border_halfedge_map c)(?K \<mapsto> (h0, length rest + 2 + 1, idx)),
              manifold_halfedge_pairs := (manifold_halfedge_pairs c)[idx := False]\<rparr>"
        using m by (simp add: fill_pairs_def)
      have k1: "key_inv pm (xs @ [he]) (fill_pairs pm he c) k" for k
      proof (cases "k = ?K")
        case True
        then show ?thesis using occ Cons idx pr len unfolding fp key_inv_def occurrences_snoc
          by simp
      next
        case False
        note nk = False
        show ?thesis
        proof (cases "occurrences pm xs k")
          case Nil
          then show ?thesis using keys[of k] nk unfolding fp key_inv_def occurrences_snoc
            by simp
        next
          case c1: (Cons a r1)
          show ?thesis
          proof (cases r1)
            case Nil
            then show ?thesis using keys[of k] nk c1 unfolding fp key_inv_def occurrences_snoc
              by simp
          next
            case c2: (Cons b r)
            from keys[of k] c1 c2 obtain idxa where
              ma: "border_halfedge_map c k = Some (a, length r + 2, idxa)"
              and ia: "idxa < length (halfedge_pairs c)"
              and pa: "halfedge_pairs c ! idxa = (a, b)"
              and fa: "manifold_halfedge_pairs c ! idxa = (r = [] \<and> direction_match pm a b)"
              by (auto simp: key_inv_def)
            have ka: "hkey pm a = k" using occurrences_hd_key c1 by blast
            have ne: "idxa \<noteq> idx"
            proof
              assume "idxa = idx"
              with pr pa have "a = h0" by simp
              with ka h0k nk show False by simp
            qed
            have o': "occurrences pm (xs @ [he]) k = a # b # r"
              using nk c1 c2 by (simp add: occurrences_snoc)
            have m': "border_halfedge_map (fill_pairs pm he c) k = Some (a, length r + 2, idxa)"
              using nk ma unfolding fp by simp
            have f': "manifold_halfedge_pairs (fill_pairs pm he c) ! idxa = (r = [] \<and> direction_match pm a b)"
              using fa ne unfolding fp by simp
            have p': "halfedge_pairs (fill_pairs pm he c) = halfedge_pairs c"
              unfolding fp by simp
            show ?thesis unfolding key_inv_def o' using m' f' p' ia pa by simp
          qed
        qed
      qed
      have k2: "\<exists>h0' n. border_halfedge_map (fill_pairs pm he c)
            (hkey pm (fst (halfedge_pairs (fill_pairs pm he c) ! i))) = Some (h0', n, i) \<and> 2 \<le> n"
        if "i < length (halfedge_pairs (fill_pairs pm he c))" for i
        using idxs[of i] that m unfolding fp by auto
      show ?thesis unfolding collector_inv_def using len k1 k2 by (simp add: fp)
    qed
  qed
qed

lemma collector_inv_fold:
  "collector_inv pm xs (fold (fill_pairs pm) xs empty_collector)"
  by (induction xs rule: rev_induct) (simp_all add: collector_inv_empty collector_inv_step)

lemma manifold_output_iff:
  assumes "length (manifold_halfedge_pairs c) = length (halfedge_pairs c)"
  shows "p \<in> set (manifold_output c) \<longleftrightarrow>
    (\<exists>i < length (halfedge_pairs c). halfedge_pairs c ! i = p \<and> manifold_halfedge_pairs c ! i)"
proof -
  have "p \<in> set (manifold_output c) \<longleftrightarrow>
        (p, True) \<in> set (zip (halfedge_pairs c) (manifold_halfedge_pairs c))"
    unfolding manifold_output_def by force
  also have "\<dots> \<longleftrightarrow>
    (\<exists>i < length (halfedge_pairs c). halfedge_pairs c ! i = p \<and> manifold_halfedge_pairs c ! i)"
    using assms by (auto simp: in_set_zip)
  finally show ?thesis .
qed

lemma collector_inv_output:
  assumes inv: "collector_inv pm xs c"
  shows "(h1, h2) \<in> set (manifold_output c) \<longleftrightarrow>
     (occurrences pm xs (hkey pm h1) = [h1, h2] \<and> direction_match pm h1 h2)"
proof
  from inv have len: "length (manifold_halfedge_pairs c) = length (halfedge_pairs c)"
    and keys: "\<And>k. key_inv pm xs c k"
    and idxs: "\<And>i. i < length (halfedge_pairs c) \<Longrightarrow> \<exists>h0 n.
          border_halfedge_map c (hkey pm (fst (halfedge_pairs c ! i))) = Some (h0, n, i) \<and> 2 \<le> n"
    by (auto simp: collector_inv_def)
  {
    assume "(h1, h2) \<in> set (manifold_output c)"
    then obtain i where i: "i < length (halfedge_pairs c)" "halfedge_pairs c ! i = (h1, h2)"
      "manifold_halfedge_pairs c ! i"
      using manifold_output_iff[OF len] by blast
    from idxs[OF i(1)] i(2) obtain h0 n where
      m: "border_halfedge_map c (hkey pm h1) = Some (h0, n, i)" "2 \<le> n" by auto
    show "occurrences pm xs (hkey pm h1) = [h1, h2] \<and> direction_match pm h1 h2"
      using keys[of "hkey pm h1"] m i unfolding key_inv_def
      by (auto split: list.splits)
  }
  {
    assume a: "occurrences pm xs (hkey pm h1) = [h1, h2] \<and> direction_match pm h1 h2"
    with keys[of "hkey pm h1"] obtain idx where "idx < length (halfedge_pairs c)"
      "halfedge_pairs c ! idx = (h1, h2)" "manifold_halfedge_pairs c ! idx"
      unfolding key_inv_def by auto
    then show "(h1, h2) \<in> set (manifold_output c)"
      using manifold_output_iff[OF len] by blast
  }
qed

text \<open>
  C2: without the per-component mode, the collector outputs the pair \<open>(h1, h2)\<close> exactly
  when the border halfedges with the key of \<open>h1\<close>, in the order of the iteration, are
  \<open>h1\<close> then \<open>h2\<close> and no other (first and second with that key, the key occurring
  exactly twice), and the directions match: the point of the source of \<open>h2\<close> is the point
  of the target of \<open>h1\<close> and the point of the target of \<open>h2\<close> is the point of the
  source of \<open>h1\<close>. So a pair whose key occurs a third time, or whose directions do not
  match, is not output.
\<close>

theorem collector_exact:
  "(h1, h2) \<in> set (collect_duplicated_stitchable_boundary_edges pm) \<longleftrightarrow>
     (filter (\<lambda>h. hkey pm h = hkey pm h1) (border_halfedges pm) = [h1, h2] \<and>
      point pm (source pm h2) = point pm (target pm h1) \<and>
      point pm (target pm h2) = point pm (source pm h1))"
  using collector_inv_output[OF collector_inv_fold, of h1 h2 pm "border_halfedges pm"]
  by (simp add: collect_duplicated_stitchable_boundary_edges_def occurrences_def direction_match_def)


theorem collector_exact_witness:
  "(1, 7) \<in> set (collect_duplicated_stitchable_boundary_edges two_triangles) \<and>
   filter (\<lambda>h. hkey two_triangles h = hkey two_triangles 1) (border_halfedges two_triangles) = [1, 7]"
proof -
  have "filter (\<lambda>h. hkey two_triangles h = hkey two_triangles 1) (border_halfedges two_triangles) = [1, 7] \<and>
      point two_triangles (source two_triangles 7) = point two_triangles (target two_triangles 1) \<and>
      point two_triangles (target two_triangles 7) = point two_triangles (source two_triangles 1)"
    by code_simp
  then show ?thesis using collector_exact [of 1 7 two_triangles] by simp
qed

subsection \<open>The self-stitching walk\<close>

text \<open>
  C7: a pair \<open>(h, hn)\<close> that the walk appends to \<^verbatim>\<open>hedges_to_stitch\<close> has opposites
  in different faces: when the faces of the two opposites are the same the walk stops
  before it appends the pair, so no such pair reaches \<^verbatim>\<open>stitch_borders_impl\<close>.
\<close>

theorem walk_pairs_distinct_faces:
  "walk fuel pm h hn acc st = Some (pairs, st') \<Longrightarrow> (a, b) \<in> set pairs \<Longrightarrow> (a, b) \<notin> set acc \<Longrightarrow>
   face pm (opposite pm a) \<noteq> face pm (opposite pm b)"
proof (induction fuel arbitrary: h hn acc st)
  case 0
  then show ?case by simp
next
  case (Suc n)
  show ?case
  proof (cases "face pm (opposite pm h) = face pm (opposite pm hn)")
    case True
    with Suc.prems show ?thesis by simp
  next
    case False
    note nf = False
    show ?thesis
    proof (cases "(a, b) = (h, hn)")
      case True
      with nf show ?thesis by simp
    next
      case False
      then have na: "(a, b) \<notin> set (acc @ [(h, hn)])" using Suc.prems(3) by simp
      show ?thesis
      proof (cases "next_he pm hn = h \<or> point pm (source pm (prev_he pm h)) \<noteq> point pm (target pm (next_he pm hn)) \<or>
                   point pm (source pm (next_he pm hn)) = point pm (target pm (next_he pm hn))")
        case True
        with Suc.prems(1) nf have "pairs = acc @ [(h, hn)]"
          by (auto simp: Let_def split: if_splits)
        with Suc.prems(2) na show ?thesis by simp
      next
        case False
        with Suc.prems(1) nf have
          "walk n pm (prev_he pm h) (next_he pm hn) (acc @ [(h, hn)])
             (List.insert hn (List.insert h st)) = Some (pairs, st')"
          by (auto simp: Let_def split: if_splits)
        from Suc.IH[OF this Suc.prems(2) na] show ?thesis .
      qed
    qed
  qed
qed

theorem walk_pairs_distinct_faces_witness:
  "walk 20 folded_ring 1 27 [] [] = Some ([(1, 27)], [27, 1]) \<and>
   face folded_ring (opposite folded_ring 1) \<noteq> face folded_ring (opposite folded_ring 27)"
proof -
  have w: "walk 20 folded_ring 1 27 [] [] = Some ([(1, 27)], [27, 1])" by code_simp
  from walk_pairs_distinct_faces [OF w, of 1 27] show ?thesis using w by simp
qed

lemma walk_same_face_stops:
  "face pm (opposite pm h) = face pm (opposite pm hn) \<Longrightarrow>
   walk (Suc n) pm h hn hedges_to_stitch stitched_hedges = Some (hedges_to_stitch, stitched_hedges)"
  by simp

subsection \<open>The starting points of the walks\<close>

lemma reach_shift:
  assumes "hn \<noteq> h"
  shows "(\<exists>k. x = (f ^^ k) hn \<and> (\<forall>j \<le> k. (f ^^ j) hn \<noteq> h) \<and> P x) \<longleftrightarrow>
         (x = hn \<and> P x) \<or> (\<exists>k. x = (f ^^ k) (f hn) \<and> (\<forall>j \<le> k. (f ^^ j) (f hn) \<noteq> h) \<and> P x)"
proof
  assume "\<exists>k. x = (f ^^ k) hn \<and> (\<forall>j \<le> k. (f ^^ j) hn \<noteq> h) \<and> P x"
  then obtain k where k: "x = (f ^^ k) hn" "\<forall>j \<le> k. (f ^^ j) hn \<noteq> h" "P x" by blast
  show "(x = hn \<and> P x) \<or> (\<exists>k. x = (f ^^ k) (f hn) \<and> (\<forall>j \<le> k. (f ^^ j) (f hn) \<noteq> h) \<and> P x)"
  proof (cases k)
    case 0
    with k show ?thesis by simp
  next
    case (Suc k')
    have "x = (f ^^ k') (f hn)" using k(1) Suc by (simp add: funpow_swap1)
    moreover have "(f ^^ j) (f hn) \<noteq> h" if "j \<le> k'" for j
      using k(2)[rule_format, of "Suc j"] that Suc by (simp add: funpow_swap1)
    ultimately show ?thesis using k(3) by blast
  qed
next
  assume "(x = hn \<and> P x) \<or> (\<exists>k. x = (f ^^ k) (f hn) \<and> (\<forall>j \<le> k. (f ^^ j) (f hn) \<noteq> h) \<and> P x)"
  then show "\<exists>k. x = (f ^^ k) hn \<and> (\<forall>j \<le> k. (f ^^ j) hn \<noteq> h) \<and> P x"
  proof
    assume a: "x = hn \<and> P x"
    have "x = (f ^^ 0) hn \<and> (\<forall>j \<le> 0. (f ^^ j) hn \<noteq> h) \<and> P x"
      using a assms by auto
    then show ?thesis by blast
  next
    assume "\<exists>k. x = (f ^^ k) (f hn) \<and> (\<forall>j \<le> k. (f ^^ j) (f hn) \<noteq> h) \<and> P x"
    then obtain k where k: "x = (f ^^ k) (f hn)"
      "\<forall>j \<le> k. (f ^^ j) (f hn) \<noteq> h" "P x" by blast
    have "x = (f ^^ Suc k) hn" using k(1) by (simp add: funpow_swap1)
    moreover have "(f ^^ j) hn \<noteq> h" if "j \<le> Suc k" for j
    proof (cases j)
      case 0
      then show ?thesis using assms by simp
    next
      case (Suc j')
      then show ?thesis using k(2)[rule_format, of j'] that by (simp add: funpow_swap1)
    qed
    ultimately show ?thesis using k(3) by blast
  qed
qed

lemma starting_points_loop_iff:
  "starting_points_loop fuel pm h hn = Some sps \<Longrightarrow>
   x \<in> set sps \<longleftrightarrow>
     (\<exists>k. x = (next_he pm ^^ k) hn \<and> (\<forall>j \<le> k. (next_he pm ^^ j) hn \<noteq> h) \<and> fold_point pm x)"
proof (induction fuel arbitrary: hn sps)
  case 0
  then show ?case by simp
next
  case (Suc n)
  show ?case
  proof (cases "hn = h")
    case True
    with Suc.prems have "sps = []" by simp
    moreover have "\<not> (\<forall>j \<le> k. (next_he pm ^^ j) hn \<noteq> h)" for k
      using True by (auto intro: exI[of _ 0])
    ultimately show ?thesis by simp
  next
    case False
    with Suc.prems obtain rest where
      rest: "starting_points_loop n pm h (next_he pm hn) = Some rest"
      and sps: "sps = (if fold_point pm hn then hn # rest else rest)"
      by auto
    show ?thesis
      unfolding reach_shift [OF False, of x "next_he pm" "fold_point pm"]
      using Suc.IH[OF rest] sps by auto
  qed
qed

lemma starting_points_never_start:
  "stitching_starting_points fuel pm h = Some sps \<Longrightarrow> h \<notin> set sps"
  unfolding stitching_starting_points_def
  using starting_points_loop_iff [of fuel pm h "next_he pm h" sps h] by auto

text \<open>
  C6: the scan starts at \<open>next h\<close> and stops when it is back at \<open>h\<close>, so the halfedge
  \<open>h\<close> that describes the cycle is never tested. On \<open>folded_ring\<close> the halfedge 1 is
  the only fold point of the inner cycle: described by the halfedge 1 the cycle has no
  starting point and \<^verbatim>\<open>stitch_boundary_cycle\<close> leaves the mesh as it is; described
  by the halfedge 9 the same cycle has the starting point 1 and one pair is stitched, which
  takes two of the thirty halfedges away.
\<close>

theorem fold_point_at_start_not_selected:
  "fold_point folded_ring 1 \<and>
   stitching_starting_points 20 folded_ring 1 = Some [] \<and>
   stitch_boundary_cycle 20 1 folded_ring = Some (folded_ring, 0) \<and>
   stitching_starting_points 20 folded_ring 9 = Some [1] \<and>
   map_option (\<lambda>r. (length (halfedges (fst r)), snd r)) (stitch_boundary_cycle 20 9 folded_ring) =
     Some (28, 1)"
proof -
  have a: "fold_point folded_ring 1" by code_simp
  have b: "stitching_starting_points 20 folded_ring 1 = Some []" by code_simp
  have c: "stitching_starting_points 20 folded_ring 9 = Some [1]" by code_simp
  have d: "stitch_boundary_cycle 20 1 folded_ring = Some (folded_ring, 0)"
    unfolding stitch_boundary_cycle_def b by simp
  have e: "map_option (\<lambda>r. (length (halfedges (fst r)), snd r))
      (stitch_boundary_cycle 20 9 folded_ring) = Some (28, 1)" by code_simp
  from a b c d e show ?thesis by (intro conjI)
qed

subsection \<open>The top-level routine\<close>

text \<open>
  C4: \<^verbatim>\<open>stitch_borders(pmesh, np)\<close> runs, in this order, the self-cycle stitching over
  all boundary cycles, the collection of the border pairs on the mesh that results and the
  stitching of these pairs, then the self-cycle stitching over all boundary cycles again:
  its result is the mesh of the third step.
\<close>

theorem stitch_borders_np_order:
  "stitch_borders_np fuel np pmesh = Some (pm3, ()) \<longleftrightarrow>
     (\<exists>pm1 n1 pairs pm2 n3.
        stitch_boundary_cycles fuel pmesh = Some (pm1, n1) \<and>
        collect_with np pm1 = Some pairs \<and>
        stitch_borders fuel pm1 pairs = Some (pm2, ()) \<and>
        stitch_boundary_cycles fuel pm2 = Some (pm3, n3))"
  by (auto simp: stitch_borders_np_def bind_eq_Some_conv)

lemma two_triangles_no_fold:
  "stitch_boundary_cycles 20 two_triangles = Some (two_triangles, 0)"
proof -
  have e: "extract_boundary_cycles 20 two_triangles = Some [1, 7]" by code_simp
  have s1: "stitching_starting_points 20 two_triangles 1 = Some []" by code_simp
  have s7: "stitching_starting_points 20 two_triangles 7 = Some []" by code_simp
  show ?thesis
    unfolding stitch_boundary_cycles_def e
    by (simp add: stitch_boundary_cycle_def s1 s7 del: One_nat_def)
qed

theorem stitch_borders_np_order_witness:
  "\<exists>pm3. stitch_borders_np 20 all_default two_triangles = Some (pm3, ()) \<and>
     halfedges pm3 = [0, 1, 2, 3, 4, 5, 8, 9, 10, 11]"
proof -
  let ?r2 = "the (stitch_borders 20 two_triangles [(1, 7)])"
  let ?r3 = "the (stitch_boundary_cycles 20 (fst ?r2))"
  have c: "collect_with all_default two_triangles = Some [(1, 7)]" by code_simp
  have "stitch_borders 20 two_triangles [(1, 7)] \<noteq> None" by code_simp
  then have s2: "stitch_borders 20 two_triangles [(1, 7)] = Some (fst ?r2, ())" by auto
  have "stitch_boundary_cycles 20 (fst ?r2) \<noteq> None" by code_simp
  then have s3: "stitch_boundary_cycles 20 (fst ?r2) = Some (fst ?r3, snd ?r3)" by auto
  have h: "halfedges (fst ?r3) = [0, 1, 2, 3, 4, 5, 8, 9, 10, 11]" by code_simp
  have "stitch_borders_np 20 all_default two_triangles = Some (fst ?r3, ())"
    using stitch_borders_np_order [of 20 all_default two_triangles "fst ?r3"]
      two_triangles_no_fold c s2 s3 by blast
  with h show ?thesis by blast
qed

text \<open>
  C8: \<^verbatim>\<open>stitch_borders(pmesh, np)\<close> does not return the number of stitched pairs. On
  \<open>two_triangles\<close> it stitches one pair (two halfedges fewer), on \<open>two_triangles_apart\<close>
  none, and the value it returns is the same.
\<close>

theorem stitch_borders_np_value_is_not_count:
  "map_option snd (stitch_borders_np 20 all_default two_triangles) = Some () \<and>
   map_option snd (stitch_borders_np 20 all_default two_triangles_apart) = Some () \<and>
   length (halfedges two_triangles) = 12 \<and>
   map_option (\<lambda>r. length (halfedges (fst r))) (stitch_borders_np 20 all_default two_triangles) = Some 10 \<and>
   length (halfedges two_triangles_apart) = 12 \<and>
   map_option (\<lambda>r. length (halfedges (fst r))) (stitch_borders_np 20 all_default two_triangles_apart) = Some 12"
  by code_simp

text \<open>
  C8, amended: \<^verbatim>\<open>stitch_borders(pmesh, np)\<close> returns no value. Its only result is the mesh
  left by the second self-cycle pass; the numbers of pairs that the two self-cycle passes
  return are dropped.
\<close>

theorem stitch_borders_np_returns_nothing:
  assumes "stitch_borders_np fuel np pmesh = Some r"
  shows "snd r = () \<and>
    (\<exists>pm1 n1 pairs pm2 n3.
        stitch_boundary_cycles fuel pmesh = Some (pm1, n1) \<and>
        collect_with np pm1 = Some pairs \<and>
        stitch_borders fuel pm1 pairs = Some (pm2, ()) \<and>
        stitch_boundary_cycles fuel pm2 = Some (fst r, n3))"
  using assms by (auto simp: stitch_borders_np_def bind_eq_Some_conv)

theorem stitch_borders_np_returns_nothing_witness:
  "stitch_borders_np 20 all_default two_triangles \<noteq> None \<and>
   snd (the (stitch_borders_np 20 all_default two_triangles)) = ()"
proof -
  have n: "stitch_borders_np 20 all_default two_triangles \<noteq> None" by code_simp
  then have s: "stitch_borders_np 20 all_default two_triangles =
      Some (the (stitch_borders_np 20 all_default two_triangles))" by auto
  have "snd (the (stitch_borders_np 20 all_default two_triangles)) = ()"
    using stitch_borders_np_returns_nothing [OF s] by (rule conjunct1)
  with n show ?thesis by (intro conjI)
qed

subsection \<open>Count conservation\<close>

lemma same_arena_refl [simp]: "same_arena pm pm"
  by (simp add: same_arena_def)

lemma same_arena_trans: "same_arena a b \<Longrightarrow> same_arena b c \<Longrightarrow> same_arena a c"
  by (simp add: same_arena_def)

lemma same_arena_opposite: "same_arena pm pm' \<Longrightarrow> opposite pm' h = opposite pm h"
  by (simp add: same_arena_def opposite_def)

lemma same_arena_setters [simp]:
  "same_arena pm (set_target h v pm)"
  "same_arena pm (set_next h1 h2 pm)"
  "same_arena pm (set_face h f pm)"
  "same_arena pm (set_vertex_halfedge v h pm)"
  "same_arena pm (set_face_halfedge f h pm)"
  by (simp_all add: same_arena_def set_target_def set_next_def set_face_def
      set_vertex_halfedge_def set_face_halfedge_def split: option.splits)

lemma update_target_loop_arena:
  "update_target_loop fuel start h v pm = Some pm' \<Longrightarrow> same_arena pm pm'"
proof (induction fuel arbitrary: h pm)
  case 0
  then show ?case by simp
next
  case (Suc n)
  let ?pm1 = "set_target h v pm"
  show ?case
  proof (cases "opposite ?pm1 (next_he ?pm1 h) \<noteq> start")
    case True
    with Suc.prems have "update_target_loop n start (opposite ?pm1 (next_he ?pm1 h)) v ?pm1 = Some pm'"
      by (simp add: Let_def)
    from Suc.IH[OF this] show ?thesis
      using same_arena_trans same_arena_setters(1) by blast
  next
    case False
    with Suc.prems have "pm' = ?pm1" by (simp add: Let_def)
    then show ?thesis by simp
  qed
qed

lemma retarget_arena:
  "retarget fuel c v h v_to_keep s = Some s' \<Longrightarrow> same_arena (fst s) (fst s')"
  unfolding retarget_def update_target_vertex_def
  by (auto split: if_splits dest: update_target_loop_arena)

lemma retarget_deleted:
  "retarget fuel c v h v_to_keep s = Some s' \<Longrightarrow> snd s' = (if c then snd s @ [v] else snd s)"
  unfolding retarget_def by (auto split: if_splits)

lemma merge_vertices_arena:
  assumes "merge_vertices fuel hk (pm, u, vtd) = Some (pm', u', vtd')"
  shows "same_arena pm pm'"
proof -
  from assms obtain s1 s2 s3 s4 v1 v2 where
    r1: "retarget fuel (v1 \<noteq> target pm (fst hk)) (target pm (fst hk)) (fst hk) v1 (pm, vtd) = Some s1"
    and r2: "retarget fuel (v1 \<noteq> source pm (snd hk) \<and> target pm (fst hk) \<noteq> source pm (snd hk))
               (source pm (snd hk)) (opposite (fst s1) (snd hk)) v1 s1 = Some s2"
    and r3: "retarget fuel (v2 \<noteq> target (set_vertex_halfedge v1 (fst hk) (fst s2)) (snd hk))
               (target (set_vertex_halfedge v1 (fst hk) (fst s2)) (snd hk)) (snd hk) v2
               (set_vertex_halfedge v1 (fst hk) (fst s2), snd s2) = Some s3"
    and r4: "retarget fuel (v2 \<noteq> source (set_vertex_halfedge v1 (fst hk) (fst s2)) (fst hk) \<and>
                 source (set_vertex_halfedge v1 (fst hk) (fst s2)) (fst hk) \<noteq>
                 target (set_vertex_halfedge v1 (fst hk) (fst s2)) (snd hk))
               (source (set_vertex_halfedge v1 (fst hk) (fst s2)) (fst hk))
               (opposite (fst s3) (fst hk)) v2 s3 = Some s4"
    and pm': "pm' = set_vertex_halfedge v2 (opposite (fst s4) (fst hk)) (fst s4)"
    unfolding merge_vertices_def by (auto simp: Let_def bind_eq_Some_conv)
  have "same_arena pm (fst s1)" using retarget_arena[OF r1] by simp
  moreover have "same_arena (fst s1) (fst s2)" using retarget_arena[OF r2] .
  moreover have "same_arena (fst s2) (set_vertex_halfedge v1 (fst hk) (fst s2))" by simp
  moreover have "same_arena (set_vertex_halfedge v1 (fst hk) (fst s2)) (fst s3)"
    using retarget_arena[OF r3] by simp
  moreover have "same_arena (fst s3) (fst s4)" using retarget_arena[OF r4] .
  moreover have "same_arena (fst s4) pm'" unfolding pm' by simp
  ultimately show ?thesis using same_arena_trans by blast
qed

lemma merge_all_arena:
  "merge_all fuel to_stitch (pm, u, vtd) = Some (pm', u', vtd') \<Longrightarrow> same_arena pm pm'"
proof (induction to_stitch arbitrary: pm u vtd)
  case Nil
  then show ?case by simp
next
  case (Cons hk rest)
  then obtain pm1 u1 vtd1 where
    m: "merge_vertices fuel hk (pm, u, vtd) = Some (pm1, u1, vtd1)"
    and r: "merge_all fuel rest (pm1, u1, vtd1) = Some (pm', u', vtd')"
    by (auto split: option.splits)
  from merge_vertices_arena[OF m] Cons.IH[OF r] show ?case
    using same_arena_trans by blast
qed

lemma relink_arena: "same_arena pm (relink hk pm)"
  unfolding relink_def Let_def using same_arena_trans same_arena_setters(2) by blast

lemma fold_relink_arena: "same_arena pm (fold relink to_stitch pm)"
proof (induction to_stitch arbitrary: pm)
  case Nil
  then show ?case by simp
next
  case (Cons hk rest)
  show ?case using relink_arena[of pm hk] Cons.IH[of "relink hk pm"] same_arena_trans
    by (simp, blast)
qed


lemma splice_frame:
  "opposite_map (splice hk pm) = opposite_map pm \<and>
   vertices (splice hk pm) = vertices pm \<and>
   halfedges (splice hk pm) =
     filter (\<lambda>x. x \<noteq> snd hk \<and> x \<noteq> opposite pm (snd hk)) (halfedges pm)"
  by (simp add: splice_def Let_def remove_edge_def set_next_def set_face_def
      set_face_halfedge_def opposite_def split: option.splits)

lemma fold_splice_frame:
  "opposite_map (fold splice to_stitch pm) = opposite_map pm \<and>
   vertices (fold splice to_stitch pm) = vertices pm \<and>
   halfedges (fold splice to_stitch pm) =
     filter (\<lambda>x. \<forall>hk \<in> set to_stitch. x \<noteq> snd hk \<and> x \<noteq> opposite pm (snd hk)) (halfedges pm)"
proof (induction to_stitch arbitrary: pm)
  case Nil
  then show ?case by simp
next
  case (Cons hk rest)
  have o: "opposite (splice hk pm) = opposite pm"
    using splice_frame[of hk pm] by (auto simp: opposite_def fun_eq_iff)
  show ?case
    using Cons.IH[of "splice hk pm"] splice_frame[of hk pm]
    by (auto simp: o intro: filter_cong)
qed

lemma fold_remove_vertex_frame:
  "opposite_map (fold remove_vertex vs pm) = opposite_map pm \<and>
   halfedges (fold remove_vertex vs pm) = halfedges pm \<and>
   vertices (fold remove_vertex vs pm) = filter (\<lambda>x. x \<notin> set vs) (vertices pm)"
proof (induction vs arbitrary: pm)
  case Nil
  then show ?case by simp
next
  case (Cons v rest)
  show ?case using Cons.IH[of "remove_vertex v pm"]
    by (auto simp: remove_vertex_def intro: filter_cong)
qed

lemma length_filter_removed:
  assumes "distinct xs" "distinct ys" "set ys \<subseteq> set xs"
  shows "length (filter (\<lambda>x. x \<notin> set ys) xs) = length xs - length ys"
proof -
  have "length (filter (\<lambda>x. x \<in> set ys) xs) = card (set xs \<inter> set ys)"
    using assms(1) by (simp add: distinct_card[symmetric] Int_def conj_commute cong: conj_cong)
  also have "set xs \<inter> set ys = set ys" using assms(3) by auto
  also have "card (set ys) = length ys" using assms(2) by (simp add: distinct_card)
  finally have "length (filter (\<lambda>x. x \<in> set ys) xs) = length ys" .
  moreover have "length (filter (\<lambda>x. x \<in> set ys) xs) + length (filter (\<lambda>x. x \<notin> set ys) xs) = length xs"
    using sum_length_filter_compl[of "\<lambda>x. x \<in> set ys" xs] by simp
  ultimately show ?thesis by simp
qed

lemma run_stitch_borders_frame:
  assumes m: "merge_all fuel pairs (pm, u, []) = Some (pm1, u1, vertices_to_delete)"
  shows "\<exists>pm'. run_stitch_borders fuel pm pairs u = Some pm' \<and>
     opposite_map pm' = opposite_map pm \<and>
     halfedges pm' = filter (\<lambda>x. x \<notin> set (removed_halfedges pm pairs)) (halfedges pm) \<and>
     vertices pm' = filter (\<lambda>x. x \<notin> set vertices_to_delete) (vertices pm)"
proof -
  let ?pm2 = "fold relink pairs pm1"
  let ?pm3 = "fold splice pairs ?pm2"
  let ?pm' = "fold remove_vertex vertices_to_delete ?pm3"
  have r: "run_stitch_borders fuel pm pairs u = Some ?pm'"
    by (simp add: run_stitch_borders_def m)
  have a2: "same_arena pm ?pm2"
    using merge_all_arena[OF m] fold_relink_arena[of pm1 pairs] same_arena_trans by blast
  then have o2: "opposite ?pm2 = opposite pm"
    by (auto simp: same_arena_def opposite_def fun_eq_iff)
  have mem: "(x \<notin> set (removed_halfedges pm pairs)) \<longleftrightarrow>
     (\<forall>hk \<in> set pairs. x \<noteq> snd hk \<and> x \<noteq> opposite pm (snd hk))" for x
    by (auto simp: removed_halfedges_def)
  show ?thesis
    using r a2 fold_splice_frame[of pairs ?pm2] fold_remove_vertex_frame[of vertices_to_delete ?pm3]
    by (simp add: o2 mem same_arena_def)
qed

text \<open>
  C5: when the filter hands the pairs \<open>pairs\<close> to the surgery, the call removes exactly
  the edge of the second halfedge of every pair, this halfedge and its opposite, and the
  vertices scheduled for deletion, and nothing else. The halfedges of these edges being
  different halfedges of the mesh, the number of halfedges drops by twice the number of
  pairs stitched, and the number of vertices by the number of vertices deleted.
\<close>

theorem count_conservation:
  assumes f: "manifold_filter fuel pm to_stitch = Some (pairs, u)"
    and m: "merge_all fuel pairs (pm, u, []) = Some (pm1, u1, vertices_to_delete)"
    and dh: "distinct (halfedges pm)"
    and dr: "distinct (removed_halfedges pm pairs)"
    and sub: "set (removed_halfedges pm pairs) \<subseteq> set (halfedges pm)"
  shows "\<exists>pm'. stitch_borders_impl fuel pm to_stitch = Some pm' \<and>
     set (halfedges pm') = set (halfedges pm) - set (removed_halfedges pm pairs) \<and>
     length (halfedges pm') = length (halfedges pm) - 2 * length pairs \<and>
     set (vertices pm') = set (vertices pm) - set vertices_to_delete \<and>
     length (vertices pm') =
       length (vertices pm) - length (filter (\<lambda>v. v \<in> set vertices_to_delete) (vertices pm))"
proof -
  from run_stitch_borders_frame[OF m] obtain pm' where
    r: "run_stitch_borders fuel pm pairs u = Some pm'"
    and h: "halfedges pm' = filter (\<lambda>x. x \<notin> set (removed_halfedges pm pairs)) (halfedges pm)"
    and v: "vertices pm' = filter (\<lambda>x. x \<notin> set vertices_to_delete) (vertices pm)"
    by blast
  have s: "stitch_borders_impl fuel pm to_stitch = Some pm'"
    by (simp add: stitch_borders_impl_def f r)
  have n: "length (removed_halfedges pm pairs) = 2 * length pairs"
    by (induction pairs) (simp_all add: removed_halfedges_def)
  have lh: "length (halfedges pm') = length (halfedges pm) - 2 * length pairs"
    unfolding h using length_filter_removed[OF dh dr sub] n by simp
  have lv: "length (vertices pm') =
       length (vertices pm) - length (filter (\<lambda>v. v \<in> set vertices_to_delete) (vertices pm))"
    unfolding v using sum_length_filter_compl[of "\<lambda>v. v \<in> set vertices_to_delete" "vertices pm"]
    by simp
  show ?thesis using s lh lv h v by auto
qed


theorem count_conservation_witness:
  "\<exists>pm'. stitch_borders_impl 20 two_triangles [(1, 7)] = Some pm' \<and>
     length (halfedges two_triangles) = 12 \<and> length (halfedges pm') = 10 \<and>
     length (vertices two_triangles) = 6 \<and> length (vertices pm') = 4"
proof -
  let ?f = "the (manifold_filter 20 two_triangles [(1, 7)])"
  let ?m = "the (merge_all 20 (fst ?f) (two_triangles, snd ?f, []))"
  have "manifold_filter 20 two_triangles [(1, 7)] \<noteq> None" by code_simp
  then have f: "manifold_filter 20 two_triangles [(1, 7)] = Some (fst ?f, snd ?f)" by auto
  have "merge_all 20 (fst ?f) (two_triangles, snd ?f, []) \<noteq> None" by code_simp
  then have m: "merge_all 20 (fst ?f) (two_triangles, snd ?f, []) =
      Some (fst ?m, fst (snd ?m), snd (snd ?m))" by auto
  have dh: "distinct (halfedges two_triangles)" by code_simp
  have dr: "distinct (removed_halfedges two_triangles (fst ?f))" by code_simp
  have sub: "set (removed_halfedges two_triangles (fst ?f)) \<subseteq> set (halfedges two_triangles)"
    by code_simp
  have p: "length (fst ?f) = 1" by code_simp
  have v: "length (filter (\<lambda>v. v \<in> set (snd (snd ?m))) (vertices two_triangles)) = 2"
    by code_simp
  have l: "length (halfedges two_triangles) = 12" "length (vertices two_triangles) = 6"
    by code_simp+
  from count_conservation [OF f m dh dr sub] show ?thesis
    unfolding p v l by auto
qed

subsection \<open>The manifold-safety filter\<close>

lemma set_fold_mark_endpoints:
  "set (fold (mark_endpoints pm) hs acc) =
     set acc \<union> (\<Union>h \<in> set hs. {source pm h, target pm h})"
  by (induction hs arbitrary: acc) (auto simp: mark_endpoints_def)

lemma set_mark_group:
  "set (mark_group pm hs acc) =
     set acc \<union> (if length hs > 2 \<or> (length hs = 2 \<and>
                      \<not> (is_border_edge pm (hd hs) \<and> is_border_edge pm (last hs)))
               then (\<Union>h \<in> set hs. {source pm h, target pm h}) else {})"
proof -
  consider "length hs = 0" | "length hs = 1" | "length hs = 2" | "length hs > 2" by linarith
  then show ?thesis
  proof cases
    case 1
    then show ?thesis by (simp add: mark_group_def)
  next
    case 2
    then show ?thesis by (simp add: mark_group_def)
  next
    case 3
    then show ?thesis by (simp add: mark_group_def set_fold_mark_endpoints)
  next
    case 4
    then show ?thesis by (simp add: mark_group_def set_fold_mark_endpoints)
  qed
qed

lemma set_fold_mark_group:
  "set (fold (\<lambda>g. mark_group pm (snd g)) groups acc) =
     set acc \<union> (\<Union>g \<in> set groups.
        if length (snd g) > 2 \<or> (length (snd g) = 2 \<and>
              \<not> (is_border_edge pm (hd (snd g)) \<and> is_border_edge pm (last (snd g))))
        then (\<Union>h \<in> set (snd g). {source pm h, target pm h}) else {})"
proof (induction groups arbitrary: acc)
  case Nil
  then show ?case by simp
next
  case (Cons g rest)
  show ?case unfolding fold_Cons comp_def Cons.IH set_mark_group by auto
qed

lemma unstitchable_vertices_iff:
  "v \<in> set (unstitchable_vertices pm groups) \<longleftrightarrow>
     (\<exists>g \<in> set groups.
        (length (snd g) > 2 \<or> (length (snd g) = 2 \<and>
              \<not> (is_border_edge pm (hd (snd g)) \<and> is_border_edge pm (last (snd g))))) \<and>
        (\<exists>h \<in> set (snd g). v = source pm h \<or> v = target pm h))"
  unfolding unstitchable_vertices_def set_fold_mark_group
  by (auto split: if_splits)

lemma stitchable_Nil: "stitchable pm [] hk"
  by (simp add: stitchable_def)


lemma filter_stitchable_Nil: "filter (stitchable pm []) to_stitch = to_stitch"
  by (simp add: stitchable_Nil)

text \<open>
  C3: the filter does not ask for border halfedges. On \<open>two_triangles\<close> with the pair
  \<open>(1, 7)\<close> the key \<open>(3, 4)\<close> gets the two halfedges 1 and 6; the halfedge 6 has a face
  (it is the opposite of the border halfedge 7), no vertex is marked and the pair goes on
  to the surgery.
\<close>

theorem manifold_filter_accepts_interior_halfedge:
  "collect_after_stitching 20 two_triangles (merge_the_vertices two_triangles [(1, 7)])
     (uf_handles (merge_the_vertices two_triangles [(1, 7)])) [] =
     Some [((3, 4), [1, 6]), ((2, 3), [4]), ((3, 5), [9]), ((2, 4), [3]), ((4, 5), [10])] \<and>
   \<not> is_border two_triangles 6 \<and>
   unstitchable_vertices two_triangles
     [((3, 4), [1, 6]), ((2, 3), [4]), ((3, 5), [9]), ((2, 4), [3]), ((4, 5), [10])] = [] \<and>
   map_option fst (manifold_filter 20 two_triangles [(1, 7)]) = Some [(1, 7)]"
  by code_simp


text \<open>
  C3, amended: the test on a key with two halfedges is \<^verbatim>\<open>is_border_edge\<close>, which holds
  when the halfedge or its opposite is a border halfedge. A vertex is marked exactly when it
  is the source or the target of a halfedge of a key that has more than two halfedges, or
  two of which one does not lie on a border edge; a key with one halfedge marks nothing.
  The pairs handed to the surgery are the candidate pairs with no endpoint marked, and the
  union-find handed to it is the one built from the empty one over these pairs only.
\<close>

theorem manifold_filter_rule:
  assumes "manifold_filter fuel pm to_stitch = Some (pairs, u)"
  shows "\<exists>groups.
     collect_after_stitching fuel pm (merge_the_vertices pm to_stitch)
       (uf_handles (merge_the_vertices pm to_stitch)) [] = Some groups \<and>
     (\<forall>v. v \<in> set (unstitchable_vertices pm groups) \<longleftrightarrow>
        (\<exists>g \<in> set groups.
           (length (snd g) > 2 \<or> (length (snd g) = 2 \<and>
              \<not> (is_border_edge pm (hd (snd g)) \<and> is_border_edge pm (last (snd g))))) \<and>
           (\<exists>h \<in> set (snd g). v = source pm h \<or> v = target pm h))) \<and>
     pairs = filter (\<lambda>hk. source pm (fst hk) \<notin> set (unstitchable_vertices pm groups) \<and>
                          target pm (fst hk) \<notin> set (unstitchable_vertices pm groups) \<and>
                          source pm (snd hk) \<notin> set (unstitchable_vertices pm groups) \<and>
                          target pm (snd hk) \<notin> set (unstitchable_vertices pm groups)) to_stitch \<and>
     u = merge_the_vertices pm pairs"
proof -
  let ?u = "merge_the_vertices pm to_stitch"
  from assms obtain groups where
    g: "collect_after_stitching fuel pm ?u (uf_handles ?u) [] = Some groups"
    by (auto simp: manifold_filter_def Let_def split: option.splits)
  let ?unst = "unstitchable_vertices pm groups"
  have st: "stitchable pm ?unst = (\<lambda>hk. source pm (fst hk) \<notin> set ?unst \<and>
                          target pm (fst hk) \<notin> set ?unst \<and>
                          source pm (snd hk) \<notin> set ?unst \<and>
                          target pm (snd hk) \<notin> set ?unst)"
    by (auto simp: stitchable_def fun_eq_iff)
  have p: "pairs = filter (stitchable pm ?unst) to_stitch \<and> u = merge_the_vertices pm pairs"
  proof (cases "?unst = []")
    case True
    with assms g have "pairs = to_stitch" "u = merge_the_vertices pm to_stitch"
      by (auto simp: manifold_filter_def Let_def)
    then show ?thesis using True by (simp add: filter_stitchable_Nil)
  next
    case False
    with assms g show ?thesis
      by (auto simp: manifold_filter_def Let_def)
  qed
  show ?thesis using g p unstitchable_vertices_iff[of _ pm groups] unfolding st by blast
qed

theorem manifold_filter_rule_witness:
  "\<exists>groups.
     collect_after_stitching 20 two_triangles (merge_the_vertices two_triangles [(1, 7)])
       (uf_handles (merge_the_vertices two_triangles [(1, 7)])) [] = Some groups \<and>
     snd (the (manifold_filter 20 two_triangles [(1, 7)])) =
       merge_the_vertices two_triangles (fst (the (manifold_filter 20 two_triangles [(1, 7)])))"
proof -
  let ?f = "the (manifold_filter 20 two_triangles [(1, 7)])"
  have "manifold_filter 20 two_triangles [(1, 7)] \<noteq> None" by code_simp
  then have f: "manifold_filter 20 two_triangles [(1, 7)] = Some (fst ?f, snd ?f)" by auto
  from manifold_filter_rule [OF f] show ?thesis by blast
qed

text \<open>
  The veto at work: on \<open>folded_fan\<close> the pair \<open>(3, 19)\<close> that the walk from the fold
  point proposes would double the edge from the centre, so the key \<open>(0, 4)\<close> gets the two
  interior halfedges 5 and 17, their endpoints are marked and the pair is dropped.
\<close>

lemma manifold_filter_vetoes_double_edge:
  "walk 20 folded_fan 3 19 [] [] = Some ([(3, 19)], [19, 3]) \<and>
   map_option (\<lambda>groups. (map_of groups (0, 4), unstitchable_vertices folded_fan groups))
     (collect_after_stitching 20 folded_fan (merge_the_vertices folded_fan [(3, 19)])
        (uf_handles (merge_the_vertices folded_fan [(3, 19)])) []) =
     Some (Some [5, 17], [4, 1, 0]) \<and>
   map_option fst (manifold_filter 20 folded_fan [(3, 19)]) = Some []"
  by code_simp

subsection \<open>Stitching twice\<close>

text \<open>
  C9: a second application can stitch again. On \<open>four_parts\<close> the first application
  stitches the pair \<open>(5, 11)\<close>, which brings the halfedges 7 and 9 onto one boundary cycle,
  folded at 7, and the second self-cycle pass stitches \<open>(7, 9)\<close>; the key of 7, 9, 17 and
  23 occurred four times in the collection, so 17 and 23 were left. In the second
  application the key occurs twice and \<open>(17, 23)\<close> is stitched: the halfedges 22 and 23
  are gone.
\<close>

theorem stitching_twice_differs:
  "map_option (\<lambda>r. halfedges (fst r)) (stitch_borders_np 30 all_default four_parts) =
     Some [0, 1, 2, 3, 4, 5, 6, 7, 12, 13, 14, 15, 16, 17, 18, 19, 20, 21, 22, 23, 24, 25, 26, 27] \<and>
   map_option (\<lambda>r. halfedges (fst r))
     (Option.bind (stitch_borders_np 30 all_default four_parts)
        (\<lambda>r. stitch_borders_np 30 all_default (fst r))) =
     Some [0, 1, 2, 3, 4, 5, 6, 7, 12, 13, 14, 15, 16, 17, 18, 19, 20, 21, 24, 25, 26, 27]"
  by code_simp

lemma stitch_boundary_cycle_no_points:
  "stitching_starting_points fuel pm h = Some [] \<Longrightarrow> stitch_boundary_cycle fuel h pm = Some (pm, 0)"
  by (simp add: stitch_boundary_cycle_def)

lemma stitch_cycles_loop_no_points:
  "\<forall>h \<in> set cycles. stitching_starting_points fuel pm h = Some [] \<Longrightarrow>
   stitch_cycles_loop fuel cycles pm n = Some (pm, n)"
  by (induction cycles arbitrary: n) (simp_all add: stitch_boundary_cycle_no_points)

text \<open>
  C9, amended: a mesh in which no boundary cycle has a starting point for a walk and for
  which the collector outputs no pair is left as it is by \<^verbatim>\<open>stitch_borders(pmesh, np)\<close>.
  So stitching twice yields the same mesh as stitching once when the first application
  ends in such a mesh.
\<close>

theorem stitch_borders_np_stable:
  assumes "extract_boundary_cycles fuel pm = Some cycles"
    and "\<forall>h \<in> set cycles. stitching_starting_points fuel pm h = Some []"
    and "collect_with np pm = Some []"
  shows "stitch_borders_np fuel np pm = Some (pm, ())"
proof -
  have c: "stitch_boundary_cycles fuel pm = Some (pm, 0)"
    using assms(1) stitch_cycles_loop_no_points[OF assms(2)]
    by (simp add: stitch_boundary_cycles_def)
  have s: "stitch_borders fuel pm [] = Some (pm, ())"
    by (simp add: stitch_borders_def stitch_borders_impl_def manifold_filter_Nil run_stitch_borders_Nil)
  show ?thesis by (simp add: stitch_borders_np_def c s assms(3))
qed

theorem stitch_borders_np_stable_witness:
  "stitch_borders_np 20 all_default two_triangles \<noteq> None \<and>
   stitch_borders_np 20 all_default (fst (the (stitch_borders_np 20 all_default two_triangles))) =
     Some (fst (the (stitch_borders_np 20 all_default two_triangles)), ())"
proof -
  let ?pm = "fst (the (stitch_borders_np 20 all_default two_triangles))"
  have n: "stitch_borders_np 20 all_default two_triangles \<noteq> None" by code_simp
  have e: "extract_boundary_cycles 20 ?pm = Some [3]" by code_simp
  have p: "\<forall>h \<in> set [3]. stitching_starting_points 20 ?pm h = Some []" by code_simp
  have c: "collect_with all_default ?pm = Some []" by code_simp
  from stitch_borders_np_stable [OF e p c] n show ?thesis by simp
qed

subsection \<open>The edge records after a call\<close>

lemma same_arena_closed: "same_arena pm pm' \<Longrightarrow> opposite_closed pm \<Longrightarrow> opposite_closed pm'"
  by (simp add: same_arena_def opposite_closed_def opposite_def)

lemma removal_closed:
  assumes c: "opposite_closed pm"
    and o: "opposite_map pm' = opposite_map pm"
    and h: "halfedges pm' = filter (\<lambda>x. x \<notin> set (removed_halfedges pm pairs)) (halfedges pm)"
  shows "opposite_closed pm'"
proof -
  have op: "opposite pm' = opposite pm" using o by (simp add: opposite_def fun_eq_iff)
  have inv: "\<And>x. opposite pm (opposite pm x) = x" using c by (simp add: opposite_closed_def)
  have rem: "opposite pm x \<in> set (removed_halfedges pm pairs)"
    if "x \<in> set (removed_halfedges pm pairs)" for x
    using that inv by (auto simp: removed_halfedges_def)
  have "opposite pm x \<notin> set (removed_halfedges pm pairs)"
    if "x \<notin> set (removed_halfedges pm pairs)" for x
    using rem[of "opposite pm x"] that inv by auto
  then show ?thesis using c unfolding opposite_closed_def op h by auto
qed

lemma run_stitch_borders_closed:
  assumes "run_stitch_borders fuel pm pairs u = Some pm'" "opposite_closed pm"
  shows "opposite_closed pm'"
proof -
  from assms(1) obtain pm1 u1 vtd where
    m: "merge_all fuel pairs (pm, u, []) = Some (pm1, u1, vtd)"
    by (auto simp: run_stitch_borders_def split: option.splits)
  from run_stitch_borders_frame[OF m] assms(1) have
    "opposite_map pm' = opposite_map pm"
    "halfedges pm' = filter (\<lambda>x. x \<notin> set (removed_halfedges pm pairs)) (halfedges pm)"
    by auto
  then show ?thesis using removal_closed[OF assms(2)] by blast
qed

lemma stitch_borders_impl_closed:
  assumes "stitch_borders_impl fuel pm to_stitch = Some pm'" "opposite_closed pm"
  shows "opposite_closed pm'"
  using assms run_stitch_borders_closed
  by (auto simp: stitch_borders_impl_def split: option.splits)


text \<open>
  Every public call is a sequence of steps: what it changes in the mesh, it changes through
  \<^verbatim>\<open>stitch_borders_impl\<close>, on the pairs given to it or on pairs it has gathered.
\<close>

lemma stitch_from_steps:
  "stitch_from fuel sps pm st n = Some (pm', n') \<Longrightarrow> rtranclp (stitch_step fuel) pm pm'"
proof (induction sps arbitrary: pm st n)
  case Nil
  then show ?case by simp
next
  case (Cons h rest)
  show ?case
  proof (cases "h \<in> set st")
    case True
    with Cons.prems have "stitch_from fuel rest pm st n = Some (pm', n')" by simp
    from Cons.IH[OF this] show ?thesis .
  next
    case False
    with Cons.prems obtain ps st' where
      w: "walk fuel pm h (next_he pm h) [] st = Some (ps, st')"
      by (auto split: option.splits)
    show ?thesis
    proof (cases "ps = []")
      case True
      with Cons.prems False w have "stitch_from fuel rest pm st' n = Some (pm', n')" by simp
      from Cons.IH[OF this] show ?thesis .
    next
      case ne: False
      with Cons.prems False w obtain pm1 where
        s: "stitch_borders_impl fuel pm ps = Some pm1"
        and r: "stitch_from fuel rest pm1 st' (n + length ps) = Some (pm', n')"
        by (auto split: option.splits)
      have "stitch_step fuel pm pm1" using s by (auto simp: stitch_step_def)
      then show ?thesis using Cons.IH[OF r] by (rule converse_rtranclp_into_rtranclp)
    qed
  qed
qed

lemma stitch_boundary_cycle_steps:
  "stitch_boundary_cycle fuel h pm = Some (pm', n) \<Longrightarrow> rtranclp (stitch_step fuel) pm pm'"
  using stitch_from_steps
  by (auto simp: stitch_boundary_cycle_def split: option.splits)

lemma stitch_cycles_loop_steps:
  "stitch_cycles_loop fuel cycles pm n = Some (pm', n') \<Longrightarrow> rtranclp (stitch_step fuel) pm pm'"
proof (induction cycles arbitrary: pm n)
  case Nil
  then show ?case by simp
next
  case (Cons h rest)
  from Cons.prems obtain pm1 k where
    c: "stitch_boundary_cycle fuel h pm = Some (pm1, k)"
    and r: "stitch_cycles_loop fuel rest pm1 (n + k) = Some (pm', n')"
    by (auto split: option.splits)
  from stitch_boundary_cycle_steps[OF c] Cons.IH[OF r] show ?case by (rule rtranclp_trans)
qed

lemma stitch_boundary_cycles_steps:
  "stitch_boundary_cycles fuel pm = Some (pm', n) \<Longrightarrow> rtranclp (stitch_step fuel) pm pm'"
  using stitch_cycles_loop_steps
  by (auto simp: stitch_boundary_cycles_def split: option.splits)

lemma stitch_borders_steps:
  assumes "stitch_borders fuel pm pairs = Some (pm', r)"
  shows "rtranclp (stitch_step fuel) pm pm'"
proof -
  from assms have "stitch_borders_impl fuel pm pairs = Some pm'"
    by (auto simp: stitch_borders_def)
  then have "stitch_step fuel pm pm'" by (auto simp: stitch_step_def)
  then show ?thesis by (rule r_into_rtranclp)
qed

lemma stitch_borders_np_steps:
  assumes "stitch_borders_np fuel np pm = Some (pm', r)"
  shows "rtranclp (stitch_step fuel) pm pm'"
proof -
  from assms obtain pm1 n1 pairs pm2 n3 where
    a: "stitch_boundary_cycles fuel pm = Some (pm1, n1)"
    and b: "stitch_borders fuel pm1 pairs = Some (pm2, ())"
    and c: "stitch_boundary_cycles fuel pm2 = Some (pm', n3)"
    by (auto simp: stitch_borders_np_def bind_eq_Some_conv)
  from stitch_boundary_cycles_steps[OF a] stitch_borders_steps[OF b]
  have "rtranclp (stitch_step fuel) pm pm2" by (rule rtranclp_trans)
  then show ?thesis using stitch_boundary_cycles_steps[OF c] by (rule rtranclp_trans)
qed

lemma public_call_is_steps:
  assumes "stitch_borders_np fuel np pm = Some (pm', ()) \<or>
           stitch_borders fuel pm pairs = Some (pm', ()) \<or>
           stitch_boundary_cycle fuel h0 pm = Some (pm', n) \<or>
           stitch_boundary_cycles fuel pm = Some (pm', n)"
  shows "rtranclp (stitch_step fuel) pm pm'"
  using assms stitch_borders_np_steps stitch_borders_steps
    stitch_boundary_cycle_steps stitch_boundary_cycles_steps by blast

lemma steps_closed:
  assumes "rtranclp (stitch_step fuel) pm pm'" "opposite_closed pm"
  shows "opposite_closed pm'"
  using assms
proof (induction rule: rtranclp_induct)
  case base
  then show ?case by simp
next
  case (step y z)
  then obtain pairs where "stitch_borders_impl fuel y pairs = Some z"
    by (auto simp: stitch_step_def)
  from stitch_borders_impl_closed[OF this] step show ?case by blast
qed

lemma edge_records_after_public_call:
  assumes "opposite_closed pm"
    and "stitch_borders_np fuel np pm = Some (pm', ()) \<or>
         stitch_borders fuel pm pairs = Some (pm', ()) \<or>
         stitch_boundary_cycle fuel h0 pm = Some (pm', n) \<or>
         stitch_boundary_cycles fuel pm = Some (pm', n)"
  shows "opposite_closed pm'"
  using steps_closed[OF public_call_is_steps[OF assms(2)] assms(1)] .

subsection \<open>The classes of the union-find\<close>


lemma uf_class_empty: "uf_class empty_uf x = x"
  by (simp add: uf_class_def empty_uf_def)




lemma uf_get_handle_ok:
  assumes "uf_ok u"
  shows "uf_ok (uf_get_handle v u)"
    and "set (uf_handles (uf_get_handle v u)) = insert v (set (uf_handles u))"
    and "uf_class (uf_get_handle v u) x = uf_class u x"
proof -
  show "uf_ok (uf_get_handle v u)"
    using assms by (auto simp: uf_ok_def uf_get_handle_def)
  show "set (uf_handles (uf_get_handle v u)) = insert v (set (uf_handles u))"
    by (auto simp: uf_get_handle_def)
  show "uf_class (uf_get_handle v u) x = uf_class u x"
    by (auto simp: uf_class_def uf_get_handle_def)
qed

lemma uf_link_ok:
  assumes ok: "uf_ok u" and p: "p \<in> set (uf_handles u)" and q: "q \<in> set (uf_handles u)"
    and rp: "uf_rep u p = p" and rq: "uf_rep u q = q" and ne: "p \<noteq> q"
  shows "uf_ok (uf_link p q u)"
    and "uf_handles (uf_link p q u) = uf_handles u"
    and "uf_class (uf_link p q u) x = (if uf_class u x = p then q else uf_class u x)"
proof -
  show "uf_handles (uf_link p q u) = uf_handles u" by (simp add: uf_link_def)
  show "uf_ok (uf_link p q u)"
    using ok p q rp rq ne by (auto simp: uf_ok_def uf_link_def)
  show "uf_class (uf_link p q u) x = (if uf_class u x = p then q else uf_class u x)"
    using p by (auto simp: uf_class_def uf_link_def)
qed

lemma unify_sets_ok:
  assumes ok: "uf_ok u" and a: "a \<in> set (uf_handles u)" and b: "b \<in> set (uf_handles u)"
  shows "uf_ok (unify_sets a b u) \<and> uf_handles (unify_sets a b u) = uf_handles u \<and>
     (\<exists>p q. ((p = uf_class u a \<and> q = uf_class u b) \<or> (p = uf_class u b \<and> q = uf_class u a)) \<and>
        (\<forall>x. uf_class (unify_sets a b u) x = (if uf_class u x = p then q else uf_class u x)))"
proof -
  let ?p = "uf_rep u a" and ?q = "uf_rep u b"
  have ca: "uf_class u a = ?p" and cb: "uf_class u b = ?q" using a b by (simp_all add: uf_class_def)
  have hp: "?p \<in> set (uf_handles u)" "uf_rep u ?p = ?p"
    and hq: "?q \<in> set (uf_handles u)" "uf_rep u ?q = ?q"
    using ok a b by (auto simp: uf_ok_def)
  show ?thesis
  proof (cases "?p = ?q")
    case True
    then have "unify_sets a b u = u" by (simp add: unify_sets_def uf_find_def)
    then show ?thesis using ok ca cb True by auto
  next
    case False
    show ?thesis
    proof (cases "uf_size u ?p > uf_size u ?q")
      case True
      then have e: "unify_sets a b u = uf_link ?q ?p u"
        using False by (simp add: unify_sets_def uf_find_def Let_def)
      have ne: "?q \<noteq> ?p" using False by simp
      from uf_link_ok[OF ok hq(1) hp(1) hq(2) hp(2) ne] show ?thesis
        unfolding e ca cb by blast
    next
      case g: False
      then have e: "unify_sets a b u = uf_link ?p ?q u"
        using False by (simp add: unify_sets_def uf_find_def Let_def)
      from uf_link_ok[OF ok hp(1) hq(1) hp(2) hq(2) False] show ?thesis
        unfolding e ca cb by blast
    qed
  qed
qed

lemma uf_join_vertices_ok:
  assumes ok: "uf_ok u"
  shows "uf_ok (uf_join_vertices a b u) \<and>
     set (uf_handles (uf_join_vertices a b u)) = insert a (insert b (set (uf_handles u))) \<and>
     (\<exists>p q. ((p = uf_class u a \<and> q = uf_class u b) \<or> (p = uf_class u b \<and> q = uf_class u a)) \<and>
        (\<forall>x. uf_class (uf_join_vertices a b u) x = (if uf_class u x = p then q else uf_class u x)))"
proof -
  let ?u1 = "uf_get_handle a u"
  let ?u2 = "uf_get_handle b ?u1"
  have ok1: "uf_ok ?u1" using uf_get_handle_ok(1)[OF ok] .
  have ok2: "uf_ok ?u2" using uf_get_handle_ok(1)[OF ok1] .
  have h2: "set (uf_handles ?u2) = insert a (insert b (set (uf_handles u)))"
    using uf_get_handle_ok(2)[OF ok1] uf_get_handle_ok(2)[OF ok] by auto
  have c2: "\<And>x. uf_class ?u2 x = uf_class u x"
    using uf_get_handle_ok(3)[OF ok1] uf_get_handle_ok(3)[OF ok] by simp
  have a: "a \<in> set (uf_handles ?u2)" and b: "b \<in> set (uf_handles ?u2)" using h2 by auto
  from unify_sets_ok[OF ok2 a b] show ?thesis
    unfolding uf_join_vertices_def c2 using h2 by simp
qed


lemma uf_join_coarser:
  "uf_ok u \<Longrightarrow> uf_class u x = uf_class u y \<Longrightarrow>
   uf_class (uf_join_vertices a b u) x = uf_class (uf_join_vertices a b u) y"
  using uf_join_vertices_ok[of u a b] by auto



lemma refines_join_right:
  assumes ok: "uf_ok u" and r: "refines u' u"
  shows "refines u' (uf_join_vertices a b u)"
  unfolding refines_def
proof (intro allI impI)
  fix x y assume "uf_class u' x = uf_class u' y"
  with r have "uf_class u x = uf_class u y" unfolding refines_def by blast
  then show "uf_class (uf_join_vertices a b u) x = uf_class (uf_join_vertices a b u) y"
    by (rule uf_join_coarser[OF ok])
qed









subsection \<open>The halfedges filed under a key\<close>












subsection \<open>What the filter guarantees\<close>














subsection \<open>The targets after the first loop of the surgery\<close>



















subsection \<open>The faces after the third loop of the surgery\<close>









subsection \<open>The manifold invariant\<close>



text \<open>
  Without the filter the surgery does not keep the edges manifold. \<open>folded_fan\<close> has valid
  fans and at most two faces along every edge; the pair \<open>(3, 19)\<close> merges the vertices 1
  and 4, which are both joined to the vertex 0. The surgery alone, on that pair and its
  union-find, leaves the four halfedges 4, 5, 16 and 17, each with a face, between the
  vertices 0 and 4. The call on the same pair drops it and leaves two.
\<close>

lemma surgery_alone_not_manifold:
  "valid_fans 20 folded_fan \<and>
   (\<forall>h \<in> set (halfedges folded_fan).
      length (faces_on folded_fan (source folded_fan h) (target folded_fan h)) \<le> 2) \<and>
   is_border folded_fan 3 \<and> \<not> is_border folded_fan (opposite folded_fan 19) \<and>
   map_option (\<lambda>pm'. faces_on pm' 0 4)
     (run_stitch_borders 20 folded_fan [(3, 19)] (merge_the_vertices folded_fan [(3, 19)])) =
     Some [4, 5, 16, 17] \<and>
   map_option (\<lambda>r. faces_on (fst r) 0 4) (stitch_borders 20 folded_fan [(3, 19)]) = Some [16, 17]"
  by code_simp

text \<open>
  Two border edges under one key pass the filter (its comment: edges that are scheduled for
  stitching ``or will create a two halfedge loop''). On \<open>two_squares\<close>, stitched along
  two opposite sides, the other two sides stay open: four halfedges then join the vertices
  5 and 6, the halfedges 2 and 12 with the two faces and the border halfedges 3 and 13,
  which follow each other. The faces along the edge are still two.
\<close>

lemma two_halfedge_loop:
  "map_option (\<lambda>r. (filter (\<lambda>h. joins (fst r) h 5 6) (halfedges (fst r)), faces_on (fst r) 5 6,
                      next_he (fst r) 3, next_he (fst r) 13))
     (stitch_borders 20 two_squares [(1, 15), (5, 11)]) = Some ([2, 3, 12, 13], [2, 12], 13, 3)"
  by code_simp

text \<open>
  Two of the other public calls on the meshes of this file: \<^verbatim>\<open>stitch_boundary_cycle\<close>
  on \<open>folded_ring\<close>, described by the halfedge 9, stitches the fold at the halfedge 1,
  and \<^verbatim>\<open>stitch_borders\<close> with discovery on \<open>four_parts\<close> stitches two pairs. Every
  edge of the meshes they return has at most two incident halfedges.
\<close>

lemma public_calls_on_examples:
  "map_option (\<lambda>r. (length (halfedges (fst r)), \<forall>h \<in> set (halfedges (fst r)).
       length (faces_on (fst r) (source (fst r) h) (target (fst r) h)) \<le> 2))
     (stitch_boundary_cycle 20 9 folded_ring) = Some (28, True) \<and>
   length (halfedges folded_ring) = 30 \<and>
   map_option (\<lambda>r. (length (halfedges (fst r)), \<forall>h \<in> set (halfedges (fst r)).
       length (faces_on (fst r) (source (fst r) h) (target (fst r) h)) \<le> 2))
     (stitch_borders_np 30 all_default four_parts) = Some (24, True) \<and>
   length (halfedges four_parts) = 28"
  by code_simp



end
